theory Spec2Isabelle
  imports Complex_Main
begin

section \<open>JavaScript numbers\<close>

text \<open>
  The parser of \<^verbatim>\<open>parser.ts\<close> computes with JavaScript numbers, the doubles of
  IEEE 754. The model has NaN, the two infinities, the negative zero \<open>NZero\<close> and the finite
  numbers \<open>Fin x\<close>, where \<open>Fin 0\<close> is the positive zero. Comparison, the special values and
  the sign of a zero follow ECMAScript, and a string converts to an infinity when its
  value is beyond the range of the doubles. A finite number stands for the double nearest
  to it: the sum, product or quotient of two finite numbers is the exact one, neither
  rounded nor overflowing.
\<close>

datatype jsnum = NaN | PInf | NInf | NZero | Fin real

fun isNaN :: "jsnum \<Rightarrow> bool" where
  "isNaN NaN = True"
| "isNaN _ = False"

fun isZero :: "jsnum \<Rightarrow> bool" where
  "isZero (Fin a) = (a = 0)"
| "isZero NZero = True"
| "isZero _ = False"

fun isInf :: "jsnum \<Rightarrow> bool" where
  "isInf PInf = True"
| "isInf NInf = True"
| "isInf _ = False"

text \<open>The sign bit of a number that is not NaN, and the real value of a finite one.\<close>

fun negative :: "jsnum \<Rightarrow> bool" where
  "negative (Fin a) = (a < 0)"
| "negative NZero = True"
| "negative NInf = True"
| "negative _ = False"

fun realOf :: "jsnum \<Rightarrow> real" where
  "realOf (Fin a) = a"
| "realOf _ = 0"

definition signedZero :: "bool \<Rightarrow> jsnum" where
  "signedZero neg = (if neg then NZero else Fin 0)"

definition signedInf :: "bool \<Rightarrow> jsnum" where
  "signedInf neg = (if neg then NInf else PInf)"

text \<open>
  The double nearest to a real, as far as the model tells doubles apart: an infinity from
  \<open>2\<^sup>1\<^sup>0\<^sup>2\<^sup>4 - 2\<^sup>9\<^sup>7\<^sup>0\<close> on, the halfway point between the largest double and
  \<open>2\<^sup>1\<^sup>0\<^sup>2\<^sup>4\<close>.
\<close>

definition overflowThreshold :: real where
  "overflowThreshold = 2 ^ 1024 - 2 ^ 970"

definition toDouble :: "real \<Rightarrow> jsnum" where
  "toDouble x =
     (if overflowThreshold \<le> x then PInf
      else if x \<le> - overflowThreshold then NInf
      else Fin x)"

text \<open>\<^verbatim>\<open>a < b\<close> on numbers: false as soon as one side is NaN; the two zeros are equal.\<close>

fun js_lt :: "jsnum \<Rightarrow> jsnum \<Rightarrow> bool" where
  "js_lt NaN _ = False"
| "js_lt _ NaN = False"
| "js_lt PInf _ = False"
| "js_lt _ NInf = False"
| "js_lt NInf _ = True"
| "js_lt _ PInf = True"
| "js_lt a b = (realOf a < realOf b)"

definition js_gt :: "jsnum \<Rightarrow> jsnum \<Rightarrow> bool" where
  "js_gt a b = js_lt b a"

text \<open>\<^verbatim>\<open>a >= b\<close> on numbers.\<close>

definition js_ge :: "jsnum \<Rightarrow> jsnum \<Rightarrow> bool" where
  "js_ge a b = (\<not> isNaN a \<and> \<not> isNaN b \<and> \<not> js_lt a b)"

text \<open>\<^verbatim>\<open>a === b\<close> on numbers.\<close>

definition js_eq :: "jsnum \<Rightarrow> jsnum \<Rightarrow> bool" where
  "js_eq a b = (\<not> isNaN a \<and> \<not> isNaN b \<and> (a = b \<or> (isZero a \<and> isZero b)))"

fun js_neg :: "jsnum \<Rightarrow> jsnum" where
  "js_neg NaN = NaN"
| "js_neg PInf = NInf"
| "js_neg NInf = PInf"
| "js_neg NZero = Fin 0"
| "js_neg (Fin a) = (if a = 0 then NZero else Fin (- a))"

fun js_add :: "jsnum \<Rightarrow> jsnum \<Rightarrow> jsnum" where
  "js_add NaN _ = NaN"
| "js_add _ NaN = NaN"
| "js_add PInf NInf = NaN"
| "js_add NInf PInf = NaN"
| "js_add PInf _ = PInf"
| "js_add _ PInf = PInf"
| "js_add NInf _ = NInf"
| "js_add _ NInf = NInf"
| "js_add NZero b = b"
| "js_add a NZero = a"
| "js_add (Fin a) (Fin b) = Fin (a + b)"

definition js_sub :: "jsnum \<Rightarrow> jsnum \<Rightarrow> jsnum" where
  "js_sub a b = js_add a (js_neg b)"

definition js_mul :: "jsnum \<Rightarrow> jsnum \<Rightarrow> jsnum" where
  "js_mul a b =
     (if isNaN a \<or> isNaN b then NaN
      else if (isInf a \<and> isZero b) \<or> (isZero a \<and> isInf b) then NaN
      else if isInf a \<or> isInf b then signedInf (negative a \<noteq> negative b)
      else if isZero a \<or> isZero b then signedZero (negative a \<noteq> negative b)
      else Fin (realOf a * realOf b))"

definition js_div :: "jsnum \<Rightarrow> jsnum \<Rightarrow> jsnum" where
  "js_div a b =
     (if isNaN a \<or> isNaN b then NaN
      else if isInf a then (if isInf b then NaN else signedInf (negative a \<noteq> negative b))
      else if isInf b then signedZero (negative a \<noteq> negative b)
      else if isZero b then (if isZero a then NaN else signedInf (negative a \<noteq> negative b))
      else if isZero a then signedZero (negative a \<noteq> negative b)
      else Fin (realOf a / realOf b))"

text \<open>\<^verbatim>\<open>Math.floor\<close>.\<close>

fun js_floor :: "jsnum \<Rightarrow> jsnum" where
  "js_floor (Fin a) = Fin (of_int \<lfloor>a\<rfloor>)"
| "js_floor a = a"

section \<open>JavaScript strings\<close>

text \<open>
  A string is a list of characters; a character stands for the code unit of the same
  number, so the model covers the strings whose code units are below 256. What
  \<^verbatim>\<open>charAt\<close> returns is a string of one character, or the empty string out of range.
\<close>

definition code :: "char \<Rightarrow> nat" where
  "code c = of_char c"

text \<open>The white space and line terminators of ECMAScript below 256, as matched by
  \<^verbatim>\<open>\s\<close> and removed by \<^verbatim>\<open>trim\<close>.\<close>

definition isWhiteSpace :: "char \<Rightarrow> bool" where
  "isWhiteSpace c = (code c \<in> {9, 10, 11, 12, 13, 32, 160})"

text \<open>\<^verbatim>\<open>/\d/\<close> and \<^verbatim>\<open>/\w/\<close> on one character.\<close>

definition isDigit :: "char \<Rightarrow> bool" where
  "isDigit c = (48 \<le> code c \<and> code c \<le> 57)"

definition isWord :: "char \<Rightarrow> bool" where
  "isWord c = (isDigit c \<or> (65 \<le> code c \<and> code c \<le> 90)
     \<or> (97 \<le> code c \<and> code c \<le> 122) \<or> c = CHR ''_'')"

definition trimStart :: "string \<Rightarrow> string" where
  "trimStart s = dropWhile isWhiteSpace s"

definition trim :: "string \<Rightarrow> string" where
  "trim s = rev (dropWhile isWhiteSpace (rev (dropWhile isWhiteSpace s)))"

text \<open>\<^verbatim>\<open>s.replace(/\s+/g, ' ')\<close>: every maximal run of white space becomes one space.\<close>

fun collapseSpaces :: "string \<Rightarrow> string" where
  "collapseSpaces [] = []"
| "collapseSpaces (c # s) =
     (if isWhiteSpace c
      then (if s \<noteq> [] \<and> isWhiteSpace (hd s) then collapseSpaces s
            else CHR '' '' # collapseSpaces s)
      else c # collapseSpaces s)"

text \<open>\<^verbatim>\<open>toLowerCase\<close> on the code units below 256.\<close>

definition lowerChar :: "char \<Rightarrow> char" where
  "lowerChar c =
     (if (65 \<le> code c \<and> code c \<le> 90) \<or> (192 \<le> code c \<and> code c \<le> 222 \<and> code c \<noteq> 215)
      then char_of (code c + 32) else c)"

definition toLowerCase :: "string \<Rightarrow> string" where
  "toLowerCase s = map lowerChar s"

text \<open>\<^verbatim>\<open>s.split(c)\<close> for a one-character separator: never the empty list.\<close>

fun split :: "char \<Rightarrow> string \<Rightarrow> string list" where
  "split d [] = [[]]"
| "split d (c # s) =
     (if c = d then [] # split d s
      else (case split d s of p # ps \<Rightarrow> (c # p) # ps | [] \<Rightarrow> [[c]]))"

section \<open>Strings to numbers\<close>

definition digitVal :: "char \<Rightarrow> nat" where
  "digitVal c = code c - 48"

definition decimalValue :: "string \<Rightarrow> nat" where
  "decimalValue ds = foldl (\<lambda>a c. a * 10 + digitVal c) 0 ds"

text \<open>
  The optional \<^verbatim>\<open>ExponentPart\<close> of a decimal literal, read after a mantissa \<open>m\<close>: the
  value, as a double, and the rest of the string. An \<^verbatim>\<open>e\<close> with no digit after it is
  not part of the literal.
\<close>

definition scanExponent :: "real \<Rightarrow> string \<Rightarrow> jsnum \<times> string" where
  "scanExponent m s =
     (case s of
        [] \<Rightarrow> (toDouble m, s)
      | e # r \<Rightarrow>
          if e = CHR ''e'' \<or> e = CHR ''E'' then
            (let neg = (r \<noteq> [] \<and> hd r = CHR ''-'');
                 r' = (if r \<noteq> [] \<and> (hd r = CHR ''+'' \<or> hd r = CHR ''-'') then tl r else r);
                 ed = takeWhile isDigit r'
             in if ed = [] then (toDouble m, s)
                else (toDouble (if neg then m / 10 ^ decimalValue ed
                                else m * 10 ^ decimalValue ed),
                      dropWhile isDigit r'))
          else (toDouble m, s))"

text \<open>
  The longest prefix that is a \<^verbatim>\<open>StrUnsignedDecimalLiteral\<close>: \<^verbatim>\<open>Infinity\<close>, digits with
  an optional fraction, or a dot followed by digits, each with an optional exponent.
\<close>

definition scanUnsigned :: "string \<Rightarrow> (jsnum \<times> string) option" where
  "scanUnsigned s =
     (if take 8 s = ''Infinity'' then Some (PInf, drop 8 s)
      else
        (let ip = takeWhile isDigit s; s2 = dropWhile isDigit s
         in if s2 \<noteq> [] \<and> hd s2 = CHR ''.'' then
              (let fp = takeWhile isDigit (tl s2); s3 = dropWhile isDigit (tl s2)
               in if ip = [] \<and> fp = [] then None
                  else Some (scanExponent
                    (real (decimalValue ip) + real (decimalValue fp) / 10 ^ length fp) s3))
            else if ip = [] then None
            else Some (scanExponent (real (decimalValue ip)) s2)))"

definition scanDecimal :: "string \<Rightarrow> (jsnum \<times> string) option" where
  "scanDecimal s =
     (if s \<noteq> [] \<and> hd s = CHR ''+'' then scanUnsigned (tl s)
      else if s \<noteq> [] \<and> hd s = CHR ''-''
      then map_option (\<lambda>(v, r). (js_neg v, r)) (scanUnsigned (tl s))
      else scanUnsigned s)"

text \<open>\<^verbatim>\<open>parseFloat\<close>: the value of the longest decimal literal that starts the string
  after leading white space, NaN when there is none.\<close>

definition parseFloat :: "string \<Rightarrow> jsnum" where
  "parseFloat s = (case scanDecimal (trimStart s) of None \<Rightarrow> NaN | Some (v, r) \<Rightarrow> v)"

text \<open>The digit of a character in base 16, and 16 for a character that is none.\<close>

definition hexVal :: "char \<Rightarrow> nat" where
  "hexVal c =
     (if isDigit c then code c - 48
      else if 97 \<le> code c \<and> code c \<le> 102 then code c - 87
      else if 65 \<le> code c \<and> code c \<le> 70 then code c - 55
      else 16)"

text \<open>A \<^verbatim>\<open>NonDecimalIntegerLiteral\<close>: \<^verbatim>\<open>0x\<close>, \<^verbatim>\<open>0o\<close> or \<^verbatim>\<open>0b\<close> and digits of that base.\<close>

definition nonDecimal :: "string \<Rightarrow> jsnum option" where
  "nonDecimal s =
     (case s of
        z # x # ds \<Rightarrow>
          (let base = (if x = CHR ''x'' \<or> x = CHR ''X'' then 16
                       else if x = CHR ''o'' \<or> x = CHR ''O'' then 8
                       else if x = CHR ''b'' \<or> x = CHR ''B'' then 2 else (0::nat))
           in if z = CHR ''0'' \<and> base \<noteq> 0 \<and> ds \<noteq> [] \<and> list_all (\<lambda>c. hexVal c < base) ds
              then Some (toDouble (real (foldl (\<lambda>a c. a * base + hexVal c) 0 ds)))
              else None)
      | _ \<Rightarrow> None)"

text \<open>Unary \<^verbatim>\<open>+\<close> on a string (\<^verbatim>\<open>StringToNumber\<close>): the whole trimmed string must be a
  numeric literal; the empty string is 0.\<close>

definition toNumber :: "string \<Rightarrow> jsnum" where
  "toNumber s =
     (let t = trim s
      in if t = [] then Fin 0
         else (case scanDecimal t of
                 Some (v, []) \<Rightarrow> v
               | _ \<Rightarrow> (case nonDecimal t of Some v \<Rightarrow> v | None \<Rightarrow> NaN)))"

section \<open>Expressions and results\<close>

datatype arith_op = Plus | Minus | Times | Divide

datatype DiceRollExpression = DiceRollExpression jsnum

text \<open>
  The four classes that extend \<^verbatim>\<open>DiceExpression\<close>. A counted roll holds its
  \<^verbatim>\<open>count\<close> and its \<^verbatim>\<open>dice\<close>, an infix expression its \<^verbatim>\<open>left\<close>,
  \<^verbatim>\<open>right\<close> and \<^verbatim>\<open>operator\<close>.
\<close>

datatype DiceExpression =
    NumericalExpression jsnum
  | Dice DiceRollExpression
  | CountedDiceRollExpression jsnum DiceRollExpression
  | InfixArithmeticExpression DiceExpression DiceExpression arith_op

text \<open>A flag of \<^verbatim>\<open>DiceRolled\<close> is \<open>True\<close> when the property is set to \<^verbatim>\<open>true\<close>
  and \<open>False\<close> when it is left undefined.\<close>

record DiceRolled =
  size_d :: jsnum
  value_d :: jsnum
  isMax :: bool
  isMin :: bool

record DiceResult =
  value_r :: jsnum
  diceRolled :: "DiceRolled list"

definition AccumulatedResult :: "jsnum \<Rightarrow> DiceRolled list \<Rightarrow> DiceResult" where
  "AccumulatedResult v ds = \<lparr>value_r = v, diceRolled = ds\<rparr>"

datatype SyntaxIssue =
    InvalidDot
  | ExtraneousSpace
  | ConsecutiveOperators
  | InvalidCharacter char
  | ParenthesisMismatch
  | MisplacedComma
  | IncorrectArguments
  | InsufficientOperators
  | TooManyDs string
  | AfterD string
  | BeforeD string
  | UnallowedCount string
  | UnrecognizedInput string

text \<open>
  The errors \<^verbatim>\<open>parse\<close> throws. A syntax error carries its issue (the window of text
  around the place is left out); \<open>TypeError\<close> is the error of the JavaScript runtime.
\<close>

datatype DiceParserError =
    DiceParserEmptyError
  | DiceParserSyntaxError SyntaxIssue
  | DiceParserDiceCount jsnum
  | TypeError

section \<open>The parser\<close>

text \<open>The parser object: its only state is the configurable \<^verbatim>\<open>maximumDiceCount\<close>,
  \<open>None\<close> when undefined.\<close>

record DiceParser =
  maximumDiceCount :: "jsnum option"

text \<open>A value of type \<^verbatim>\<open>string | undefined\<close> is a \<^typ>\<open>string option\<close>.\<close>

definition isTokenGroupStart :: "string option \<Rightarrow> bool" where
  "isTokenGroupStart token = (token = Some ''('')"

definition isTokenGroupEnd :: "string option \<Rightarrow> bool" where
  "isTokenGroupEnd token = (token = Some '')'')"

record Operator =
  operation :: "DiceExpression \<Rightarrow> DiceExpression \<Rightarrow> DiceExpression"
  arguments :: nat
  precedence :: nat

text \<open>The own properties of the \<^verbatim>\<open>operators\<close> table.\<close>

definition operators :: "string \<Rightarrow> Operator option" where
  "operators token =
     (if token = ''+'' then
        Some \<lparr>operation = (\<lambda>left right. InfixArithmeticExpression left right Plus),
              arguments = 2, precedence = 1\<rparr>
      else if token = ''-'' then
        Some \<lparr>operation = (\<lambda>left right. InfixArithmeticExpression left right Minus),
              arguments = 2, precedence = 1\<rparr>
      else if token = ''*'' then
        Some \<lparr>operation = (\<lambda>left right. InfixArithmeticExpression left right Times),
              arguments = 2, precedence = 2\<rparr>
      else if token = ''/'' then
        Some \<lparr>operation = (\<lambda>left right. InfixArithmeticExpression left right Divide),
              arguments = 2, precedence = 2\<rparr>
      else None)"

text \<open>
  The table is a plain object, so \<^verbatim>\<open>this.operators[token]\<close> also finds what the table
  inherits from \<^verbatim>\<open>Object.prototype\<close>: a function or an object, which is truthy and has
  neither \<^verbatim>\<open>precedence\<close> nor \<^verbatim>\<open>operation\<close>.
\<close>

definition inheritedKeys :: "string list" where
  "inheritedKeys =
     [''constructor'', ''toString'', ''toLocaleString'', ''valueOf'', ''hasOwnProperty'',
      ''isPrototypeOf'', ''propertyIsEnumerable'', ''__proto__'', ''__defineGetter__'',
      ''__defineSetter__'', ''__lookupGetter__'', ''__lookupSetter__'']"

definition isTokenOperator :: "string option \<Rightarrow> bool" where
  "isTokenOperator token =
     (case token of
        None \<Rightarrow> False
      | Some t \<Rightarrow> t \<noteq> [] \<and> (operators t \<noteq> None \<or> t \<in> set inheritedKeys))"

text \<open>\<^verbatim>\<open>this.operators[a].precedence >= this.operators[b].precedence\<close>: false when one
  of the two is undefined.\<close>

definition precedenceGe :: "string \<Rightarrow> string \<Rightarrow> bool" where
  "precedenceGe a b =
     (case (operators a, operators b) of
        (Some x, Some y) \<Rightarrow> precedence x \<ge> precedence y
      | _ \<Rightarrow> False)"

text \<open>\<^verbatim>\<open>top\<close>: the last item of an array, undefined when it is empty.\<close>

definition top :: "string list \<Rightarrow> string option" where
  "top stack = (if stack = [] then None else Some (last stack))"

subsection \<open>tokenize\<close>

definition isCharPrimitive :: "string \<Rightarrow> bool" where
  "isCharPrimitive c = list_ex isWord c"

definition isCharOperator :: "string option \<Rightarrow> bool" where
  "isCharOperator c = isTokenOperator c"

text \<open>
  The loop of \<^verbatim>\<open>tokenize\<close> over the characters of \<^verbatim>\<open>trimmedValue\<close> from index
  \<open>i\<close> on: \<open>prevC\<close> is \<^verbatim>\<open>charAt(i - 1)\<close> (empty at the start), \<open>c # rest\<close> the
  characters from \<open>i\<close>, so \<^verbatim>\<open>charAt(i + 1)\<close> is the head of \<open>rest\<close> or empty. The
  state is \<^verbatim>\<open>tokens\<close>, \<^verbatim>\<open>current\<close> and whether \<^verbatim>\<open>currentAdded\<close> is set.
\<close>

fun tokenizeLoop ::
  "string \<Rightarrow> string \<Rightarrow> string list \<Rightarrow> string \<Rightarrow> bool \<Rightarrow> DiceParserError + string list \<times> string"
where
  "tokenizeLoop prevC [] tokens current currentAdded = Inr (tokens, current)"
| "tokenizeLoop prevC (c # rest) tokens current currentAdded =
     (let nextC = take 1 rest;
          lastToken = top tokens;
          currentParsingStarted = (current \<noteq> [])
      in if isCharPrimitive [c] \<or>
            (c = CHR ''-'' \<and> \<not> currentParsingStarted \<and>
             (lastToken = None \<or> lastToken = Some '','' \<or> isTokenGroupStart lastToken
              \<or> isCharOperator lastToken) \<and>
             list_ex isDigit nextC)
         then tokenizeLoop [c] rest tokens (current @ [c]) currentAdded
         else if c = CHR ''.'' then
           (if currentParsingStarted \<and> currentAdded
            then Inl (DiceParserSyntaxError InvalidDot)
            else tokenizeLoop [c] rest tokens (current @ [c]) True)
         else if c = CHR '' '' then
           (if isCharPrimitive prevC \<and> isCharPrimitive nextC
            then Inl (DiceParserSyntaxError ExtraneousSpace)
            else tokenizeLoop [c] rest tokens current currentAdded)
         else if isCharOperator (Some [c]) \<or> isTokenGroupStart (Some [c])
                 \<or> isTokenGroupEnd (Some [c]) \<or> c = CHR '','' then
           (if isCharOperator (Some [c]) \<and> \<not> currentParsingStarted \<and>
               isCharOperator (Some (case lastToken of None \<Rightarrow> [] | Some t \<Rightarrow> t))
            then Inl (DiceParserSyntaxError ConsecutiveOperators)
            else tokenizeLoop [c] rest
                   ((if currentParsingStarted then tokens @ [current] else tokens) @ [[c]])
                   [] False)
         else Inl (DiceParserSyntaxError (InvalidCharacter c)))"

definition tokenize :: "string \<Rightarrow> DiceParserError + string list" where
  "tokenize val =
     (let trimmedValue = collapseSpaces (trim val)
      in case tokenizeLoop [] trimmedValue [] [] False of
           Inl e \<Rightarrow> Inl e
         | Inr (tokens, current) \<Rightarrow>
             Inr (if current \<noteq> [] then tokens @ [current] else tokens))"

subsection \<open>shuntingYardConversion\<close>

text \<open>
  \<^verbatim>\<open>outputStack\<close> is a list in the order of its pushes. \<^verbatim>\<open>operatorStack\<close> is a
  list whose head is the top of the stack: a push is a cons, a pop takes the head.
\<close>

text \<open>\<^verbatim>\<open>while (operatorStack.length && !isTokenGroupStart(top(operatorStack)))\<close>: pop to
  the output.\<close>

fun popToGroupStart :: "string list \<Rightarrow> string list \<Rightarrow> string list \<times> string list" where
  "popToGroupStart outputStack [] = (outputStack, [])"
| "popToGroupStart outputStack (t # operatorStack) =
     (if \<not> isTokenGroupStart (Some t) then popToGroupStart (outputStack @ [t]) operatorStack
      else (outputStack, t # operatorStack))"

text \<open>The loop of the operator case: pop while the top is an operator whose precedence
  is at least that of \<open>token\<close>.\<close>

fun popOperators :: "string \<Rightarrow> string list \<Rightarrow> string list \<Rightarrow> string list \<times> string list" where
  "popOperators token outputStack [] = (outputStack, [])"
| "popOperators token outputStack (t # operatorStack) =
     (if isTokenOperator (Some t) \<and> precedenceGe t token
      then popOperators token (outputStack @ [t]) operatorStack
      else (outputStack, t # operatorStack))"

text \<open>The body of \<^verbatim>\<open>tokens.forEach\<close>.\<close>

definition shuntingYardStep ::
  "string list \<times> string list \<Rightarrow> string \<Rightarrow> DiceParserError + string list \<times> string list" where
  "shuntingYardStep st token =
     (case st of (outputStack, operatorStack) \<Rightarrow>
        if isTokenGroupStart (Some token) then Inr (outputStack, token # operatorStack)
        else if isTokenGroupEnd (Some token) then
          (case popToGroupStart outputStack operatorStack of
             (out, t # ops) \<Rightarrow>
               if isTokenGroupStart (Some t) then Inr (out, ops)
               else Inl (DiceParserSyntaxError ParenthesisMismatch)
           | (out, []) \<Rightarrow> Inl (DiceParserSyntaxError ParenthesisMismatch))
        else if token = '','' then
          (case popToGroupStart outputStack operatorStack of
             (out, ops) \<Rightarrow>
               if length ops = 0 then Inl (DiceParserSyntaxError MisplacedComma)
               else Inr (out, ops))
        else if isTokenOperator (Some token) then
          (case popOperators token outputStack operatorStack of
             (out, ops) \<Rightarrow> Inr (out, token # ops))
        else Inr (outputStack @ [token], operatorStack))"

fun shuntingYardLoop ::
  "string list \<Rightarrow> string list \<times> string list \<Rightarrow> DiceParserError + string list \<times> string list" where
  "shuntingYardLoop [] st = Inr st"
| "shuntingYardLoop (token # tokens) st =
     (case shuntingYardStep st token of
        Inl e \<Rightarrow> Inl e
      | Inr st' \<Rightarrow> shuntingYardLoop tokens st')"

text \<open>The final \<^verbatim>\<open>while (operatorStack.length)\<close>.\<close>

fun popRemaining :: "string list \<Rightarrow> string list \<Rightarrow> DiceParserError + string list" where
  "popRemaining outputStack [] = Inr outputStack"
| "popRemaining outputStack (t # operatorStack) =
     (if \<not> isTokenGroupStart (Some t) then popRemaining (outputStack @ [t]) operatorStack
      else Inl (DiceParserSyntaxError ParenthesisMismatch))"

definition shuntingYardConversion :: "string list \<Rightarrow> DiceParserError + string list" where
  "shuntingYardConversion tokens =
     (case shuntingYardLoop tokens ([], []) of
        Inl e \<Rightarrow> Inl e
      | Inr (outputStack, operatorStack) \<Rightarrow> popRemaining outputStack operatorStack)"

subsection \<open>expressionForPrimitive\<close>

definition isNumeric :: "string \<Rightarrow> bool" where
  "isNumeric v = (\<not> isNaN (toNumber v) \<and> \<not> isNaN (parseFloat v))"

definition expressionForPrimitive :: "string \<Rightarrow> DiceParserError + DiceExpression" where
  "expressionForPrimitive token =
     (let tokenLower = toLowerCase token
      in if CHR ''d'' \<in> set tokenLower then
           (let parts = split CHR ''d'' tokenLower
            in if length parts \<noteq> 2 then Inl (DiceParserSyntaxError (TooManyDs token))
               else if \<not> isNumeric (parts ! 1) then Inl (DiceParserSyntaxError (AfterD token))
               else
                 (let countPart = (if parts ! 0 = [] then ''1'' else parts ! 0)
                  in if \<not> isNumeric countPart then Inl (DiceParserSyntaxError (BeforeD token))
                     else
                       (let count = parseFloat countPart
                        in if js_lt count (Fin 1)
                           then Inl (DiceParserSyntaxError (UnallowedCount token))
                           else Inr (CountedDiceRollExpression count
                                       (DiceRollExpression (parseFloat (parts ! 1)))))))
         else if isNumeric token then Inr (NumericalExpression (parseFloat token))
         else Inl (DiceParserSyntaxError (UnrecognizedInput token)))"

subsection \<open>expressionForReversePolishNotation\<close>

text \<open>
  \<^verbatim>\<open>stack\<close> is a list whose head is the top of the stack. The inner loop pops
  \<^verbatim>\<open>operator.arguments\<close> expressions into \<^verbatim>\<open>params\<close>, in the order of the pops.
\<close>

fun popParams ::
  "nat \<Rightarrow> DiceExpression list \<Rightarrow> DiceExpression list
     \<Rightarrow> DiceParserError + DiceExpression list \<times> DiceExpression list" where
  "popParams 0 params stack = Inr (params, stack)"
| "popParams (Suc k) params [] = Inl (DiceParserSyntaxError IncorrectArguments)"
| "popParams (Suc k) params (e # stack) = popParams k (params @ [e]) stack"

text \<open>
  The body of \<^verbatim>\<open>tokens.forEach\<close>, on the stack and \<^verbatim>\<open>diceCount\<close>. For a key the
  table only inherits, reading \<^verbatim>\<open>arguments\<close> or calling \<^verbatim>\<open>operation\<close> throws a
  TypeError. Every operator of the table takes two arguments, so \<^verbatim>\<open>params.reverse()\<close>
  is the left and the right operand.
\<close>

definition rpnStep ::
  "jsnum option \<Rightarrow> DiceExpression list \<times> jsnum \<Rightarrow> string
     \<Rightarrow> DiceParserError + DiceExpression list \<times> jsnum" where
  "rpnStep maxCount st token =
     (case st of (stack, diceCount) \<Rightarrow>
        if isTokenOperator (Some token) then
          (case operators token of
             None \<Rightarrow> Inl TypeError
           | Some operator \<Rightarrow>
               (case popParams (arguments operator) [] stack of
                  Inl e \<Rightarrow> Inl e
                | Inr (params, stack') \<Rightarrow>
                    (case rev params of
                       [left, right] \<Rightarrow> Inr (operation operator left right # stack', diceCount)
                     | _ \<Rightarrow> Inl TypeError)))
        else
          (case expressionForPrimitive token of
             Inl e \<Rightarrow> Inl e
           | Inr expr \<Rightarrow>
               (case (maxCount, expr) of
                  (Some m, CountedDiceRollExpression count d) \<Rightarrow>
                    (let diceCount' = js_add diceCount count
                     in if js_gt diceCount' m then Inl (DiceParserDiceCount m)
                        else Inr (expr # stack, diceCount'))
                | _ \<Rightarrow> Inr (expr # stack, diceCount))))"

fun rpnLoop ::
  "jsnum option \<Rightarrow> string list \<Rightarrow> DiceExpression list \<times> jsnum
     \<Rightarrow> DiceParserError + DiceExpression list \<times> jsnum" where
  "rpnLoop maxCount [] st = Inr st"
| "rpnLoop maxCount (token # tokens) st =
     (case rpnStep maxCount st token of
        Inl e \<Rightarrow> Inl e
      | Inr st' \<Rightarrow> rpnLoop maxCount tokens st')"

text \<open>The result is \<^verbatim>\<open>stack[0]\<close>, the bottom of the stack: \<open>None\<close> stands for the
  \<^verbatim>\<open>undefined\<close> that an empty stack gives.\<close>

definition expressionForReversePolishNotation ::
  "DiceParser \<Rightarrow> string list \<Rightarrow> DiceParserError + DiceExpression option" where
  "expressionForReversePolishNotation this tokens =
     (case rpnLoop (maximumDiceCount this) tokens ([], Fin 0) of
        Inl e \<Rightarrow> Inl e
      | Inr (stack, diceCount) \<Rightarrow>
          if length stack > 1 then Inl (DiceParserSyntaxError InsufficientOperators)
          else Inr (if stack = [] then None else Some (last stack)))"

subsection \<open>parse\<close>

definition parse :: "DiceParser \<Rightarrow> string \<Rightarrow> DiceParserError + DiceExpression option" where
  "parse this val =
     (case tokenize val of
        Inl e \<Rightarrow> Inl e
      | Inr tokens \<Rightarrow>
          if length tokens = 0 then Inl DiceParserEmptyError
          else (case shuntingYardConversion tokens of
                  Inl e \<Rightarrow> Inl e
                | Inr rpnStack \<Rightarrow> expressionForReversePolishNotation this rpnStack))"

section \<open>Rolling\<close>

text \<open>
  \<^verbatim>\<open>Math.random\<close> is a sequence \<open>rnd\<close> of numbers, read at the index \<open>n\<close> that
  counts the calls made so far; a roll returns its result and the new index.
\<close>

fun rollDice :: "DiceRollExpression \<Rightarrow> (nat \<Rightarrow> real) \<Rightarrow> nat \<Rightarrow> DiceResult \<times> nat" where
  "rollDice (DiceRollExpression sz) rnd n =
     (let v = js_add (js_floor (js_mul (Fin (rnd n)) sz)) (Fin 1);
          rolled = \<lparr>size_d = sz, value_d = v,
                    isMax = js_eq v sz,
                    isMin = (\<not> js_eq v sz \<and> js_eq v (Fin 1))\<rparr>
      in (AccumulatedResult v [rolled], Suc n))"

text \<open>The loop of a counted roll from \<open>i\<close> on; \<open>None\<close> when it never ends.\<close>

partial_function (option) countedLoop ::
  "DiceRollExpression \<Rightarrow> jsnum \<Rightarrow> (nat \<Rightarrow> real) \<Rightarrow> nat \<Rightarrow> DiceResult \<times> nat
     \<Rightarrow> (DiceResult \<times> nat) option" where
  "countedLoop dice count rnd i st =
     (if js_lt (Fin (real i)) count then
        (case st of (acc, n) \<Rightarrow>
           (case rollDice dice rnd n of (next, n') \<Rightarrow>
              countedLoop dice count rnd (Suc i)
                (AccumulatedResult (js_add (value_r acc) (value_r next))
                   (diceRolled acc @ diceRolled next), n')))
      else Some st)"

declare countedLoop.simps [code]

fun arith :: "arith_op \<Rightarrow> jsnum \<Rightarrow> jsnum \<Rightarrow> jsnum" where
  "arith Plus a b = js_add a b"
| "arith Minus a b = js_sub a b"
| "arith Times a b = js_mul a b"
| "arith Divide a b = js_div a b"

fun roll :: "DiceExpression \<Rightarrow> (nat \<Rightarrow> real) \<Rightarrow> nat \<Rightarrow> (DiceResult \<times> nat) option" where
  "roll (NumericalExpression v) rnd n = Some (AccumulatedResult v [], n)"
| "roll (Dice dice) rnd n = Some (rollDice dice rnd n)"
| "roll (CountedDiceRollExpression count dice) rnd n =
     countedLoop dice count rnd 1 (rollDice dice rnd n)"
| "roll (InfixArithmeticExpression l r operator) rnd n =
     (case roll l rnd n of
        None \<Rightarrow> None
      | Some (left, n1) \<Rightarrow>
          (case roll r rnd n1 of
             None \<Rightarrow> None
           | Some (right, n2) \<Rightarrow>
               Some (AccumulatedResult (arith operator (value_r left) (value_r right))
                       (diceRolled left @ diceRolled right), n2)))"

section \<open>Notions used in the statements\<close>

text \<open>The value \<^verbatim>\<open>Math.floor(r * s) + 1\<close> of a die of finite size \<open>s\<close> at the
  sample \<open>r\<close>, and the record of that roll.\<close>

definition dieValue :: "real \<Rightarrow> real \<Rightarrow> int" where
  "dieValue r s = \<lfloor>r * s\<rfloor> + 1"

definition dieRecord :: "real \<Rightarrow> real \<Rightarrow> DiceRolled" where
  "dieRecord r s =
     \<lparr>size_d = Fin s, value_d = Fin (of_int (dieValue r s)),
      isMax = (of_int (dieValue r s) = s),
      isMin = (of_int (dieValue r s) \<noteq> s \<and> dieValue r s = 1)\<rparr>"

text \<open>One more roll of \<open>dice\<close>, at the sample of index \<open>j\<close>, added to \<open>acc\<close>: the body
  of the loop of a counted roll.\<close>

definition accumulate ::
  "DiceRollExpression \<Rightarrow> (nat \<Rightarrow> real) \<Rightarrow> DiceResult \<Rightarrow> nat \<Rightarrow> DiceResult" where
  "accumulate dice rnd acc j =
     AccumulatedResult (js_add (value_r acc) (value_r (fst (rollDice dice rnd j))))
       (diceRolled acc @ diceRolled (fst (rollDice dice rnd j)))"


text \<open>The number of rolls of a counted roll whose count is not \<open>+\<infinity>\<close>: the first one,
  and one for every integer \<open>i \<ge> 1\<close> below the count.\<close>

fun rollCount :: "jsnum \<Rightarrow> nat" where
  "rollCount (Fin c) = Suc (nat (\<lceil>c\<rceil> - 1))"
| "rollCount count = 1"

text \<open>What \<^verbatim>\<open>parse\<close> does with the tokens: the conversion, then the tree.\<close>

definition parseTokens :: "DiceParser \<Rightarrow> string list \<Rightarrow> DiceParserError + DiceExpression option" where
  "parseTokens this tokens =
     (case shuntingYardConversion tokens of
        Inl e \<Rightarrow> Inl e
      | Inr rpnStack \<Rightarrow> expressionForReversePolishNotation this rpnStack)"

text \<open>The tokens with a role of their own in the conversion: the delimiters and whatever
  \<^verbatim>\<open>isTokenOperator\<close> accepts.\<close>

definition isSpecialToken :: "string \<Rightarrow> bool" where
  "isSpecialToken t =
     (isTokenGroupStart (Some t) \<or> isTokenGroupEnd (Some t) \<or> t = '','' \<or> isTokenOperator (Some t))"

text \<open>The die nodes of an expression, from left to right, the size of a die node, and
  the counts of the counted rolls.\<close>

fun dieNodes :: "DiceExpression \<Rightarrow> DiceRollExpression list" where
  "dieNodes (NumericalExpression v) = []"
| "dieNodes (Dice dice) = [dice]"
| "dieNodes (CountedDiceRollExpression count dice) = [dice]"
| "dieNodes (InfixArithmeticExpression l r operator) = dieNodes l @ dieNodes r"

fun dieSize :: "DiceRollExpression \<Rightarrow> jsnum" where
  "dieSize (DiceRollExpression sz) = sz"

fun diceCounts :: "DiceExpression \<Rightarrow> jsnum list" where
  "diceCounts (NumericalExpression v) = []"
| "diceCounts (Dice dice) = []"
| "diceCounts (CountedDiceRollExpression count dice) = [count]"
| "diceCounts (InfixArithmeticExpression l r operator) = diceCounts l @ diceCounts r"

text \<open>The sizes of the dice an expression rolls, one for each roll, from left to
  right.\<close>

fun dieSizes :: "DiceExpression \<Rightarrow> jsnum list" where
  "dieSizes (NumericalExpression v) = []"
| "dieSizes (Dice dice) = [dieSize dice]"
| "dieSizes (CountedDiceRollExpression count dice) = replicate (rollCount count) (dieSize dice)"
| "dieSizes (InfixArithmeticExpression l r operator) = dieSizes l @ dieSizes r"

text \<open>The record of the roll of a die of size \<open>sz\<close> at the sample of index \<open>j\<close>, and the
  records of dice of the given sizes rolled one after the other from the index \<open>n\<close> on.\<close>

definition rollRecord :: "(nat \<Rightarrow> real) \<Rightarrow> nat \<Rightarrow> jsnum \<Rightarrow> DiceRolled" where
  "rollRecord rnd j sz = hd (diceRolled (fst (rollDice (DiceRollExpression sz) rnd j)))"

definition rollRecords :: "(nat \<Rightarrow> real) \<Rightarrow> nat \<Rightarrow> jsnum list \<Rightarrow> DiceRolled list" where
  "rollRecords rnd n sizes = map2 (rollRecord rnd) [n..<n + length sizes] sizes"

text \<open>The running total of dice that the primitives of an expression introduce: the
  counts of its counted rolls, added from the left as the builder meets them.\<close>

definition diceTotal :: "DiceExpression \<Rightarrow> jsnum" where
  "diceTotal e = foldl js_add (Fin 0) (diceCounts e)"

text \<open>The same total as a real number, when the counts are finite, and the expressions
  whose counts all are finite numbers from 1 on.\<close>

fun countSum :: "DiceExpression \<Rightarrow> real" where
  "countSum (NumericalExpression v) = 0"
| "countSum (Dice dice) = 0"
| "countSum (CountedDiceRollExpression count dice) = (case count of Fin k \<Rightarrow> k | _ \<Rightarrow> 0)"
| "countSum (InfixArithmeticExpression l r operator) = countSum l + countSum r"

fun countsFinite :: "DiceExpression \<Rightarrow> bool" where
  "countsFinite (CountedDiceRollExpression count dice) = (case count of Fin k \<Rightarrow> 1 \<le> k | _ \<Rightarrow> False)"
| "countsFinite (InfixArithmeticExpression l r operator) = (countsFinite l \<and> countsFinite r)"
| "countsFinite e = True"

text \<open>
  Numeric literals, as the grammar of the specification has them: an optional minus sign,
  digits, and an optional fraction of a dot and digits. \<open>literal neg ip fp\<close> is the text of
  the literal with integer digits \<open>ip\<close> and fraction digits \<open>fp\<close> (no fraction when \<open>fp\<close>
  is empty); \<open>denoted neg ip fp\<close> is the number it denotes in positional notation.
\<close>

definition literal :: "bool \<Rightarrow> string \<Rightarrow> string \<Rightarrow> string" where
  "literal neg ip fp =
     (if neg then ''-'' else []) @ ip @ (if fp = [] then [] else CHR ''.'' # fp)"

fun integerPart :: "string \<Rightarrow> nat" where
  "integerPart [] = 0"
| "integerPart (c # cs) = digitVal c * 10 ^ length cs + integerPart cs"

fun fractionPart :: "string \<Rightarrow> real" where
  "fractionPart [] = 0"
| "fractionPart (c # cs) = (real (digitVal c) + fractionPart cs) / 10"

definition denoted :: "bool \<Rightarrow> string \<Rightarrow> string \<Rightarrow> real" where
  "denoted neg ip fp = (if neg then - 1 else 1) * (real (integerPart ip) + fractionPart fp)"

text \<open>The number of the language that a literal denotes: the literal without its sign as
  a double, negated when there is a sign, so that \<^verbatim>\<open>-0\<close> is the negative zero.\<close>

definition literalNumber :: "bool \<Rightarrow> string \<Rightarrow> string \<Rightarrow> jsnum" where
  "literalNumber neg ip fp =
     (if neg then js_neg (toDouble (denoted False ip fp)) else toDouble (denoted False ip fp))"

text \<open>A finite number without a fraction.\<close>

definition isWhole :: "jsnum \<Rightarrow> bool" where
  "isWhole c = (case c of Fin k \<Rightarrow> k = of_int \<lfloor>k\<rfloor> | _ \<Rightarrow> False)"

section \<open>Numbers\<close>

lemma overflowThreshold_numeral [code]:
  "overflowThreshold =
     179769313486231580793728971405303415079934132710037826936173778980444968292764750946649017977587207096330286416692887910946555547851940402630657488671505820681908902000708383676273854845817711531764475730270069855571366959622842914819860834936475292719074168444365510704342711559699508093042880177904174497792"
  unfolding overflowThreshold_def by simp

lemma toDouble_cases: "toDouble x = Fin x \<or> toDouble x = PInf \<or> toDouble x = NInf"
  by (simp add: toDouble_def)

lemma overflowThreshold_pos: "0 < overflowThreshold"
  by (simp add: overflowThreshold_numeral)

lemma toDouble_nonneg: "0 \<le> x \<Longrightarrow> toDouble x = Fin x \<or> toDouble x = PInf"
  using overflowThreshold_pos by (simp add: toDouble_def)

lemma js_mul_Fin:
  "js_mul (Fin a) (Fin b) =
     (if a * b = 0 then signedZero ((a < 0) \<noteq> (b < 0)) else Fin (a * b))"
  by (auto simp add: js_mul_def)

lemma js_div_Fin:
  "js_div (Fin a) (Fin b) =
     (if b = 0 then (if a = 0 then NaN else signedInf (a < 0))
      else if a = 0 then signedZero (b < 0)
      else Fin (a / b))"
  by (auto simp add: js_div_def)

lemma js_div_NZero:
  "js_div (Fin a) NZero = (if a = 0 then NaN else signedInf (\<not> a < 0))"
  by (auto simp add: js_div_def)

lemma js_sub_Fin: "js_sub (Fin a) (Fin b) = Fin (a - b)"
  by (simp add: js_sub_def)

lemma js_eq_Fin: "js_eq (Fin a) (Fin b) \<longleftrightarrow> a = b"
  by (auto simp add: js_eq_def)

lemma die_value_Fin:
  "js_add (js_floor (js_mul (Fin r) (Fin s))) (Fin 1) = Fin (of_int (\<lfloor>r * s\<rfloor> + 1))"
  by (auto simp add: js_mul_Fin signedZero_def)

section \<open>Rolling one die\<close>

lemma rollDice_Fin:
  "rollDice (DiceRollExpression (Fin s)) rnd n =
     (AccumulatedResult (Fin (of_int (dieValue (rnd n) s))) [dieRecord (rnd n) s], Suc n)"
  by (simp add: dieRecord_def dieValue_def js_eq_Fin die_value_Fin Let_def)

lemma snd_rollDice: "snd (rollDice dice rnd n) = Suc n"
  by (cases dice) (simp add: Let_def)

lemma dieValue_bounds:
  assumes "0 \<le> r" "r < 1" "0 < k"
  shows "1 \<le> dieValue r (real k)" "dieValue r (real k) \<le> int k"
proof -
  have "0 \<le> r * real k" using assms by simp
  then show "1 \<le> dieValue r (real k)" by (simp add: dieValue_def)
  have "r * real k < real k" using assms by simp
  then have "\<lfloor>r * real k\<rfloor> < int k" by (simp add: floor_less_iff)
  then show "dieValue r (real k) \<le> int k" by (simp add: dieValue_def)
qed

text \<open>
  C5. A die of positive integer size \<open>s\<close>, rolled at a sample of \<^verbatim>\<open>Math.random\<close> in
  \<open>[0, 1)\<close>, gives one record: its value \<open>v\<close> is an integer with \<open>1 \<le> v \<le> s\<close> and is the
  value of the result, \<open>isMax\<close> is set exactly when \<open>v = s\<close>, \<open>isMin\<close> exactly when
  \<open>v = 1\<close> and \<open>s \<noteq> 1\<close>; a die of size 1 sets only \<open>isMax\<close>, and the two flags are never
  both set.
\<close>

theorem die_outcome_record:
  assumes "0 \<le> rnd n" and "rnd n < 1" and "0 < s"
  shows "\<exists>rolled v. rollDice (DiceRollExpression (Fin (real s))) rnd n =
            (AccumulatedResult (Fin (real v)) [rolled], Suc n)
          \<and> size_d rolled = Fin (real s) \<and> value_d rolled = Fin (real v)
          \<and> 1 \<le> v \<and> v \<le> s
          \<and> (isMax rolled \<longleftrightarrow> v = s)
          \<and> (isMin rolled \<longleftrightarrow> v = 1 \<and> s \<noteq> 1)
          \<and> (s = 1 \<longrightarrow> isMax rolled \<and> \<not> isMin rolled)
          \<and> \<not> (isMax rolled \<and> isMin rolled)"
proof -
  define v where "v = nat (dieValue (rnd n) (real s))"
  have b: "1 \<le> dieValue (rnd n) (real s)" "dieValue (rnd n) (real s) \<le> int s"
    using dieValue_bounds [OF assms] by simp_all
  then have iv: "dieValue (rnd n) (real s) = int v" by (simp add: v_def)
  have rv: "real_of_int (dieValue (rnd n) (real s)) = real v" by (simp add: iv)
  have "rollDice (DiceRollExpression (Fin (real s))) rnd n =
          (AccumulatedResult (Fin (real v)) [dieRecord (rnd n) (real s)], Suc n)"
    by (simp only: rollDice_Fin rv)
  moreover have "size_d (dieRecord (rnd n) (real s)) = Fin (real s)"
    by (simp add: dieRecord_def)
  moreover have "value_d (dieRecord (rnd n) (real s)) = Fin (real v)"
    by (simp add: dieRecord_def rv)
  moreover have "1 \<le> v" "v \<le> s" using b by (simp_all add: iv)
  moreover have "isMax (dieRecord (rnd n) (real s)) \<longleftrightarrow> v = s"
    by (simp add: dieRecord_def rv)
  moreover have "isMin (dieRecord (rnd n) (real s)) \<longleftrightarrow> v = 1 \<and> s \<noteq> 1"
    by (auto simp add: dieRecord_def rv iv)
  ultimately show ?thesis by (intro exI [of _ "dieRecord (rnd n) (real s)"] exI [of _ v]) auto
qed

theorem die_outcome_record_witness:
  "(0::real) \<le> (\<lambda>j. 1 / 2) (0::nat) \<and> (\<lambda>j. 1 / 2 :: real) (0::nat) < 1 \<and> (0::nat) < 6 \<and>
   (\<exists>rolled v. rollDice (DiceRollExpression (Fin (real 6))) (\<lambda>j. 1 / 2) 0 =
            (AccumulatedResult (Fin (real v)) [rolled], Suc 0)
          \<and> size_d rolled = Fin (real 6) \<and> value_d rolled = Fin (real v)
          \<and> 1 \<le> v \<and> v \<le> 6
          \<and> (isMax rolled \<longleftrightarrow> v = 6)
          \<and> (isMin rolled \<longleftrightarrow> v = 1 \<and> (6::nat) \<noteq> 1)
          \<and> ((6::nat) = 1 \<longrightarrow> isMax rolled \<and> \<not> isMin rolled)
          \<and> \<not> (isMax rolled \<and> isMin rolled))"
proof -
  have h1: "(0::real) \<le> (\<lambda>j. 1 / 2) (0::nat)" by simp
  have h2: "(\<lambda>j. 1 / 2 :: real) (0::nat) < 1" by simp
  have h3: "(0::nat) < 6" by simp
  from die_outcome_record [OF h1 h2 h3] h1 h2 h3 show ?thesis by blast
qed

section \<open>Infix arithmetic\<close>

text \<open>
  C4. An infix node rolls its left child, then its right child from where the left one
  stopped; its value is the left value \<open>op\<close> the right value, and its records are the
  left records followed by the right ones. On finite operands the four operators are the
  real sum, difference, product and quotient, a zero result having the sign that IEEE 754
  gives it: the division is not an integer division, and a zero divisor gives NaN or an
  infinity whose sign is that of the dividend for the positive zero and the opposite one
  for the negative zero.
\<close>

theorem infix_roll:
  assumes "roll l rnd n = Some (left, n1)" and "roll r rnd n1 = Some (right, n2)"
  shows "\<exists>res. roll (InfixArithmeticExpression l r operator) rnd n = Some (res, n2)
          \<and> diceRolled res = diceRolled left @ diceRolled right
          \<and> value_r res = arith operator (value_r left) (value_r right)
          \<and> (\<forall>a b. value_r left = Fin a \<and> value_r right = Fin b \<longrightarrow>
                value_r res =
                  (case operator of
                     Plus \<Rightarrow> Fin (a + b)
                   | Minus \<Rightarrow> Fin (a - b)
                   | Times \<Rightarrow>
                       if a * b = 0 then signedZero ((a < 0) \<noteq> (b < 0)) else Fin (a * b)
                   | Divide \<Rightarrow>
                       if b = 0 then (if a = 0 then NaN else signedInf (a < 0))
                       else if a = 0 then signedZero (b < 0)
                       else Fin (a / b)))
          \<and> (\<forall>a. value_r left = Fin a \<and> value_r right = NZero \<and> operator = Divide \<longrightarrow>
                value_r res = (if a = 0 then NaN else signedInf (\<not> a < 0)))"
proof -
  let ?res = "AccumulatedResult (arith operator (value_r left) (value_r right))
                (diceRolled left @ diceRolled right)"
  have r: "roll (InfixArithmeticExpression l r operator) rnd n = Some (?res, n2)"
    using assms by simp
  have d: "diceRolled ?res = diceRolled left @ diceRolled right"
    and v: "value_r ?res = arith operator (value_r left) (value_r right)"
    by (simp_all add: AccumulatedResult_def)
  have f: "\<forall>a b. value_r left = Fin a \<and> value_r right = Fin b \<longrightarrow>
                value_r ?res =
                  (case operator of
                     Plus \<Rightarrow> Fin (a + b)
                   | Minus \<Rightarrow> Fin (a - b)
                   | Times \<Rightarrow>
                       if a * b = 0 then signedZero ((a < 0) \<noteq> (b < 0)) else Fin (a * b)
                   | Divide \<Rightarrow>
                       if b = 0 then (if a = 0 then NaN else signedInf (a < 0))
                       else if a = 0 then signedZero (b < 0)
                       else Fin (a / b))"
    unfolding v by (cases operator) (simp_all add: js_sub_Fin js_mul_Fin js_div_Fin)
  have z: "\<forall>a. value_r left = Fin a \<and> value_r right = NZero \<and> operator = Divide \<longrightarrow>
                value_r ?res = (if a = 0 then NaN else signedInf (\<not> a < 0))"
    unfolding v by (simp add: js_div_NZero)
  from r d v f z show ?thesis by blast
qed

theorem infix_roll_witness:
  "roll (NumericalExpression (Fin 7)) (\<lambda>j. 0) 0 = Some (AccumulatedResult (Fin 7) [], 0) \<and>
   roll (Dice (DiceRollExpression (Fin 2))) (\<lambda>j. 0) 0 =
     Some (AccumulatedResult (Fin 1) [dieRecord 0 2], 1) \<and>
   (\<exists>res. roll (InfixArithmeticExpression (NumericalExpression (Fin 7))
        (Dice (DiceRollExpression (Fin 2))) Divide) (\<lambda>j. 0) 0 = Some (res, 1)
      \<and> diceRolled res = [dieRecord 0 2] \<and> value_r res = Fin 7) \<and>
   parse \<lparr>maximumDiceCount = None\<rparr> ''1/-0'' =
     Inr (Some (InfixArithmeticExpression (NumericalExpression (Fin 1))
                  (NumericalExpression NZero) Divide)) \<and>
   roll (NumericalExpression (Fin 1)) (\<lambda>j. 0) 0 = Some (AccumulatedResult (Fin 1) [], 0) \<and>
   roll (NumericalExpression NZero) (\<lambda>j. 0) 0 = Some (AccumulatedResult NZero [], 0) \<and>
   (\<exists>res. roll (InfixArithmeticExpression (NumericalExpression (Fin 1))
        (NumericalExpression NZero) Divide) (\<lambda>j. 0) 0 = Some (res, 0)
      \<and> diceRolled res = [] \<and> value_r res = NInf)"
proof -
  have h1: "roll (NumericalExpression (Fin 7)) (\<lambda>j. 0) 0 = Some (AccumulatedResult (Fin 7) [], 0)"
    by simp
  have h2: "roll (Dice (DiceRollExpression (Fin 2))) (\<lambda>j. 0) 0 =
     Some (AccumulatedResult (Fin 1) [dieRecord 0 2], 1)"
    by (simp only: roll.simps rollDice_Fin) (simp add: dieValue_def)
  have h3: "roll (NumericalExpression (Fin 1)) (\<lambda>j. 0) 0 = Some (AccumulatedResult (Fin 1) [], 0)"
    by simp
  have h4: "roll (NumericalExpression NZero) (\<lambda>j. 0) 0 = Some (AccumulatedResult NZero [], 0)"
    by simp
  have p: "parse \<lparr>maximumDiceCount = None\<rparr> ''1/-0'' =
     Inr (Some (InfixArithmeticExpression (NumericalExpression (Fin 1))
                  (NumericalExpression NZero) Divide))"
    by code_simp
  from infix_roll [OF h1 h2, of Divide] have a: "\<exists>res. roll (InfixArithmeticExpression
        (NumericalExpression (Fin 7)) (Dice (DiceRollExpression (Fin 2))) Divide) (\<lambda>j. 0) 0 =
        Some (res, 1) \<and> diceRolled res = [dieRecord 0 2] \<and> value_r res = Fin 7"
    by (auto simp add: AccumulatedResult_def)
  from infix_roll [OF h3 h4, of Divide] have b: "\<exists>res. roll (InfixArithmeticExpression
        (NumericalExpression (Fin 1)) (NumericalExpression NZero) Divide) (\<lambda>j. 0) 0 =
        Some (res, 0) \<and> diceRolled res = [] \<and> value_r res = NInf"
    by (auto simp add: AccumulatedResult_def signedInf_def)
  from h1 h2 h3 h4 p a b show ?thesis by blast
qed

section \<open>Counted rolls\<close>

lemma real_less_iff_ceiling: "real i < c \<longleftrightarrow> int i < \<lceil>c\<rceil>"
  by (simp add: less_ceiling_iff)

lemma countedLoop_Fin:
  "countedLoop dice (Fin c) rnd i (acc, n) =
     Some (foldl (accumulate dice rnd) acc [n..<n + nat (\<lceil>c\<rceil> - int i)],
           n + nat (\<lceil>c\<rceil> - int i))"
proof (induction "nat (\<lceil>c\<rceil> - int i)" arbitrary: i acc n)
  case 0
  then have "\<not> real i < c" by (simp add: real_less_iff_ceiling)
  then show ?case using 0 by (subst countedLoop.simps) simp
next
  case (Suc m)
  then have lt: "real i < c" by (simp add: real_less_iff_ceiling)
  have m: "m = nat (\<lceil>c\<rceil> - int (Suc i))" using Suc(2) by simp
  have e: "nat (\<lceil>c\<rceil> - int i) = Suc (nat (\<lceil>c\<rceil> - int (Suc i)))" using Suc(2) by simp
  have "countedLoop dice (Fin c) rnd i (acc, n) =
        countedLoop dice (Fin c) rnd (Suc i) (accumulate dice rnd acc n, Suc n)"
    by (subst countedLoop.simps)
       (simp add: lt split_beta snd_rollDice accumulate_def del: of_nat_Suc)
  also have "\<dots> = Some (foldl (accumulate dice rnd) (accumulate dice rnd acc n)
        [Suc n..<Suc n + nat (\<lceil>c\<rceil> - int (Suc i))], Suc n + nat (\<lceil>c\<rceil> - int (Suc i)))"
    by (rule Suc(1)[OF m])
  also have "\<dots> = Some (foldl (accumulate dice rnd) acc [n..<n + nat (\<lceil>c\<rceil> - int i)],
        n + nat (\<lceil>c\<rceil> - int i))"
    unfolding e by (simp add: upt_conv_Cons del: upt_Suc)
  finally show ?case .
qed

lemma countedLoop_not_lt:
  "\<not> js_lt (Fin (real i)) count \<Longrightarrow> countedLoop dice count rnd i st = Some st"
  by (subst countedLoop.simps) simp

lemma countedLoop_Some_not_PInf:
  assumes "countedLoop dice count rnd i st = Some y"
  shows "count \<noteq> PInf"
proof (rule countedLoop.raw_induct
    [where P = "\<lambda>d c r j s y. c \<noteq> PInf", OF _ assms])
  fix f :: "DiceRollExpression \<Rightarrow> jsnum \<Rightarrow> (nat \<Rightarrow> real) \<Rightarrow> nat \<Rightarrow> DiceResult \<times> nat
     \<Rightarrow> (DiceResult \<times> nat) option"
  fix d c r j and s y :: "DiceResult \<times> nat"
  assume IH: "\<And>d c r j s y. f d c r j s = Some y \<Longrightarrow> c \<noteq> PInf"
    and step: "(if js_lt (Fin (real j)) c
      then case s of
           (acc, n) \<Rightarrow>
             case rollDice d r n of
             (next, n') \<Rightarrow>
               f d c r (Suc j)
                (AccumulatedResult (js_add (value_r acc) (value_r next))
                  (diceRolled acc @ diceRolled next), n')
      else Some s) = Some y"
  show "c \<noteq> PInf"
  proof
    assume c: "c = PInf"
    with step obtain s' where "f d c r (Suc j) s' = Some y"
      by (auto split: prod.splits)
    from IH[OF this] c show False by simp
  qed
qed

lemma roll_counted_PInf: "roll (CountedDiceRollExpression PInf dice) rnd n = None"
  using countedLoop_Some_not_PInf [of dice PInf rnd 1 "rollDice dice rnd n"]
  by (cases "roll (CountedDiceRollExpression PInf dice) rnd n") auto

lemma roll_counted:
  assumes "count \<noteq> PInf"
  shows "roll (CountedDiceRollExpression count dice) rnd n =
     Some (foldl (accumulate dice rnd) (fst (rollDice dice rnd n)) [Suc n..<n + rollCount count],
           n + rollCount count)"
proof (cases count)
  case (Fin c)
  have "rollDice dice rnd n = (fst (rollDice dice rnd n), Suc n)"
    using snd_rollDice [of dice rnd n] by (metis prod.collapse)
  then have "roll (CountedDiceRollExpression (Fin c) dice) rnd n =
      countedLoop dice (Fin c) rnd 1 (fst (rollDice dice rnd n), Suc n)"
    by simp
  then show ?thesis unfolding countedLoop_Fin Fin by simp
next
  case NaN
  have "rollDice dice rnd n = (fst (rollDice dice rnd n), Suc n)"
    using snd_rollDice [of dice rnd n] by (metis prod.collapse)
  then show ?thesis using NaN countedLoop_not_lt [of 1 NaN dice rnd] by simp
next
  case NInf
  have "rollDice dice rnd n = (fst (rollDice dice rnd n), Suc n)"
    using snd_rollDice [of dice rnd n] by (metis prod.collapse)
  then show ?thesis using NInf countedLoop_not_lt [of 1 NInf dice rnd] by simp
next
  case NZero
  have "rollDice dice rnd n = (fst (rollDice dice rnd n), Suc n)"
    using snd_rollDice [of dice rnd n] by (metis prod.collapse)
  then show ?thesis using NZero countedLoop_not_lt [of 1 NZero dice rnd] by simp
qed (use assms in simp)

lemma foldl_accumulate_dice:
  "diceRolled (foldl (accumulate dice rnd) acc js) =
     diceRolled acc @ concat (map (\<lambda>j. diceRolled (fst (rollDice dice rnd j))) js)"
  by (induction js arbitrary: acc) (simp_all add: accumulate_def AccumulatedResult_def)





lemma split_no_sep: "d \<notin> set s \<Longrightarrow> split d s = [s]"
  by (induction s) auto









section \<open>Operators and primitives\<close>

lemma operators_Some_iff: "operators t \<noteq> None \<longleftrightarrow> t \<in> {''+'', ''-'', ''*'', ''/''}"
  by (simp add: operators_def)

lemma inheritedKeys_nonempty: "t \<in> set inheritedKeys \<Longrightarrow> t \<noteq> []"
  by (auto simp add: inheritedKeys_def)

lemma isSpecialToken_iff:
  "isSpecialToken t \<longleftrightarrow>
     t \<in> {''('', '')'', '','', ''+'', ''-'', ''*'', ''/''} \<union> set inheritedKeys"
  unfolding isSpecialToken_def isTokenGroupStart_def isTokenGroupEnd_def
      isTokenOperator_def operators_Some_iff
  using inheritedKeys_nonempty [of t]
  by (simp only: option.simps option.inject Un_iff insert_iff empty_iff) blast

lemma special_not_primitive:
  assumes "isSpecialToken t"
  shows "\<exists>e. expressionForPrimitive t = Inl e"
proof -
  have "list_all (\<lambda>t. case expressionForPrimitive t of Inl e \<Rightarrow> True | Inr x \<Rightarrow> False)
          ([''('', '')'', '','', ''+'', ''-'', ''*'', ''/''] @ inheritedKeys)"
    by code_simp
  moreover have "t \<in> set ([''('', '')'', '','', ''+'', ''-'', ''*'', ''/''] @ inheritedKeys)"
    using assms unfolding isSpecialToken_iff by simp
  ultimately have "case expressionForPrimitive t of Inl e \<Rightarrow> True | Inr x \<Rightarrow> False"
    unfolding list_all_iff by blast
  then show ?thesis by (cases "expressionForPrimitive t") simp_all
qed

lemma primitive_not_special:
  "expressionForPrimitive t = Inr x \<Longrightarrow> \<not> isSpecialToken t"
  using special_not_primitive [of t] by auto

lemma popOperators_eq:
  "popOperators token out ops =
     (out @ takeWhile (\<lambda>t. isTokenOperator (Some t) \<and> precedenceGe t token) ops,
      dropWhile (\<lambda>t. isTokenOperator (Some t) \<and> precedenceGe t token) ops)"
  by (induction ops arbitrary: out) simp_all

lemma popToGroupStart_eq:
  "popToGroupStart out ops =
     (out @ takeWhile (\<lambda>t. t \<noteq> ''('') ops, dropWhile (\<lambda>t. t \<noteq> ''('') ops)"
  by (induction ops arbitrary: out) (simp_all add: isTokenGroupStart_def)

lemma operator_token_kind:
  assumes "operators token \<noteq> None"
  shows "\<not> isTokenGroupStart (Some token)" "\<not> isTokenGroupEnd (Some token)"
    "token \<noteq> '',''" "isTokenOperator (Some token)"
proof -
  from assms have t: "token = ''+'' \<or> token = ''-'' \<or> token = ''*'' \<or> token = ''/''"
    unfolding operators_Some_iff by simp
  from t show "\<not> isTokenGroupStart (Some token)" by (auto simp add: isTokenGroupStart_def)
  from t show "\<not> isTokenGroupEnd (Some token)" by (auto simp add: isTokenGroupEnd_def)
  from t show "token \<noteq> '',''" by auto
  from t assms show "isTokenOperator (Some token)" by (auto simp add: isTokenOperator_def)
qed

lemma step_operator:
  assumes "operators token \<noteq> None"
  shows "shuntingYardStep (out, ops) token =
     Inr (out @ takeWhile (\<lambda>t. isTokenOperator (Some t) \<and> precedenceGe t token) ops,
          token # dropWhile (\<lambda>t. isTokenOperator (Some t) \<and> precedenceGe t token) ops)"
  using operator_token_kind [OF assms]
  by (simp add: shuntingYardStep_def popOperators_eq)

lemma step_primitive:
  assumes "\<not> isSpecialToken token"
  shows "shuntingYardStep (out, ops) token = Inr (out @ [token], ops)"
  using assms by (simp add: shuntingYardStep_def isSpecialToken_def)

lemma rpnStep_operator:
  assumes "operators token = Some operator"
  shows "rpnStep maxCount (right # left # stack, diceCount) token =
     Inr (operation operator left right # stack, diceCount)"
proof -
  have "arguments operator = 2" using assms by (auto simp add: operators_def split: if_splits)
  moreover have "isTokenOperator (Some token)"
    using assms by (auto simp add: isTokenOperator_def operators_def split: if_splits)
  ultimately show ?thesis using assms by (simp add: rpnStep_def numeral_2_eq_2)
qed

lemma rpnStep_primitive_unlimited:
  assumes "expressionForPrimitive token = Inr x"
  shows "rpnStep None (stack, diceCount) token = Inr (x # stack, diceCount)"
  using assms primitive_not_special [OF assms]
  by (simp add: rpnStep_def isSpecialToken_def)

section \<open>Precedence\<close>

lemma popRemaining_operators:
  assumes "\<forall>t \<in> set ops. operators t \<noteq> None"
  shows "popRemaining out ops = Inr (out @ ops)"
  using assms
proof (induction ops arbitrary: out)
  case Nil
  then show ?case by simp
next
  case (Cons t ops)
  then have "\<not> isTokenGroupStart (Some t)" using operator_token_kind(1) [of t] by simp
  with Cons show ?case by simp
qed

lemma conversion_two_operators:
  assumes a: "\<not> isSpecialToken a" and b: "\<not> isSpecialToken b" and c: "\<not> isSpecialToken c"
    and o1: "operators o1 \<noteq> None" and o2: "operators o2 \<noteq> None"
  shows "shuntingYardConversion [a, o1, b, o2, c] =
     Inr (if precedenceGe o1 o2 then [a, b, o1, c, o2] else [a, b, c, o2, o1])"
proof -
  have op1: "isTokenOperator (Some o1)" using operator_token_kind(4) [OF o1] .
  have "shuntingYardLoop [a, o1, b, o2, c] ([], []) =
      Inr (if precedenceGe o1 o2 then ([a, b, o1, c], [o2]) else ([a, b, c], [o2, o1]))"
    by (simp add: step_primitive [OF a] step_primitive [OF b] step_primitive [OF c]
        step_operator [OF o1] step_operator [OF o2] op1)
  then show ?thesis
    using popRemaining_operators [of "[o2]" "[a, b, o1, c]"]
      popRemaining_operators [of "[o2, o1]" "[a, b, c]"] o1 o2
    by (simp add: shuntingYardConversion_def)
qed

text \<open>
  C7. An operator token pops to the output the pending operators of greater or equal
  precedence, then is pushed; \<^verbatim>\<open>*\<close> and \<^verbatim>\<open>/\<close> have precedence 2, \<^verbatim>\<open>+\<close> and \<^verbatim>\<open>-\<close>
  precedence 1. So for all operand tokens \<open>a\<close>, \<open>b\<close>, \<open>c\<close> and operators \<open>o1\<close>, \<open>o2\<close>, the
  tokens \<open>a o1 b o2 c\<close> give the tree \<open>(a o1 b) o2 c\<close> when the precedence of \<open>o1\<close> is at
  least that of \<open>o2\<close>, and \<open>a o1 (b o2 c)\<close> otherwise: \<^verbatim>\<open>a-b-c\<close> is \<open>(a-b)-c\<close> and
  \<^verbatim>\<open>a-b*c\<close> is \<open>a-(b*c)\<close>.
\<close>

theorem left_associative_precedence:
  "(operators token \<noteq> None \<longrightarrow>
      shuntingYardStep (out, ops) token =
        Inr (out @ takeWhile (\<lambda>t. isTokenOperator (Some t) \<and> precedenceGe t token) ops,
             token # dropWhile (\<lambda>t. isTokenOperator (Some t) \<and> precedenceGe t token) ops))
   \<and> map (\<lambda>t. map_option precedence (operators t)) [''+'', ''-'', ''*'', ''/''] =
        [Some 1, Some 1, Some 2, Some 2]
   \<and> (expressionForPrimitive a = Inr ea \<and> expressionForPrimitive b = Inr eb
        \<and> expressionForPrimitive c = Inr ec
        \<and> operators o1 = Some op1 \<and> operators o2 = Some op2 \<longrightarrow>
      parseTokens \<lparr>maximumDiceCount = None\<rparr> [a, o1, b, o2, c] =
        Inr (Some (if precedence op1 \<ge> precedence op2
                   then operation op2 (operation op1 ea eb) ec
                   else operation op1 ea (operation op2 eb ec)))
      \<and> parseTokens \<lparr>maximumDiceCount = None\<rparr> [a, ''-'', b, ''-'', c] =
          Inr (Some (InfixArithmeticExpression (InfixArithmeticExpression ea eb Minus) ec Minus))
      \<and> parseTokens \<lparr>maximumDiceCount = None\<rparr> [a, ''-'', b, ''*'', c] =
          Inr (Some (InfixArithmeticExpression ea (InfixArithmeticExpression eb ec Times) Minus)))"
proof (intro conjI impI)
  assume "operators token \<noteq> None"
  then show "shuntingYardStep (out, ops) token =
        Inr (out @ takeWhile (\<lambda>t. isTokenOperator (Some t) \<and> precedenceGe t token) ops,
             token # dropWhile (\<lambda>t. isTokenOperator (Some t) \<and> precedenceGe t token) ops)"
    by (rule step_operator)
next
  show "map (\<lambda>t. map_option precedence (operators t)) [''+'', ''-'', ''*'', ''/''] =
        [Some 1, Some 1, Some 2, Some 2]"
    by (simp add: operators_def)
next
  assume h: "expressionForPrimitive a = Inr ea \<and> expressionForPrimitive b = Inr eb
        \<and> expressionForPrimitive c = Inr ec
        \<and> operators o1 = Some op1 \<and> operators o2 = Some op2"
  have general: "parseTokens \<lparr>maximumDiceCount = None\<rparr> [a, p, b, q, c] =
        Inr (Some (if precedence x \<ge> precedence y
                   then operation y (operation x ea eb) ec
                   else operation x ea (operation y eb ec)))"
    if p: "operators p = Some x" and q: "operators q = Some y" for p q x y
  proof -
    have conv: "shuntingYardConversion [a, p, b, q, c] =
        Inr (if precedenceGe p q then [a, b, p, c, q] else [a, b, c, q, p])"
      using h p q by (intro conversion_two_operators primitive_not_special [of _ ea]
          primitive_not_special [of _ eb] primitive_not_special [of _ ec]) simp_all
    have ge: "precedenceGe p q \<longleftrightarrow> precedence x \<ge> precedence y"
      using p q by (simp add: precedenceGe_def)
    show ?thesis
      using h
      by (simp add: parseTokens_def conv ge expressionForReversePolishNotation_def
          rpnStep_primitive_unlimited rpnStep_operator [OF p] rpnStep_operator [OF q])
  qed
  from h show "parseTokens \<lparr>maximumDiceCount = None\<rparr> [a, o1, b, o2, c] =
        Inr (Some (if precedence op1 \<ge> precedence op2
                   then operation op2 (operation op1 ea eb) ec
                   else operation op1 ea (operation op2 eb ec)))"
    by (intro general) simp_all
  show "parseTokens \<lparr>maximumDiceCount = None\<rparr> [a, ''-'', b, ''-'', c] =
          Inr (Some (InfixArithmeticExpression (InfixArithmeticExpression ea eb Minus) ec Minus))"
    using general [of "''-''" _ "''-''" _] by (simp add: operators_def)
  show "parseTokens \<lparr>maximumDiceCount = None\<rparr> [a, ''-'', b, ''*'', c] =
          Inr (Some (InfixArithmeticExpression ea (InfixArithmeticExpression eb ec Times) Minus))"
    using general [of "''-''" _ "''*''" _] by (simp add: operators_def)
qed


theorem left_associative_precedence_witness:
  "operators ''+'' \<noteq> None
   \<and> expressionForPrimitive ''1'' = Inr (NumericalExpression (Fin 1))
   \<and> expressionForPrimitive ''d6'' =
       Inr (CountedDiceRollExpression (Fin 1) (DiceRollExpression (Fin 6)))
   \<and> expressionForPrimitive ''3'' = Inr (NumericalExpression (Fin 3))
   \<and> operators ''/'' \<noteq> None \<and> operators ''-'' \<noteq> None
   \<and> shuntingYardStep ([''1'', ''2''], [''*'', ''+'', ''('']) ''+'' =
       Inr ([''1'', ''2''] @ takeWhile (\<lambda>t. isTokenOperator (Some t) \<and> precedenceGe t ''+'')
                [''*'', ''+'', ''(''],
           ''+'' # dropWhile (\<lambda>t. isTokenOperator (Some t) \<and> precedenceGe t ''+'')
                [''*'', ''+'', ''(''])
   \<and> shuntingYardStep ([''1'', ''2''], [''*'', ''+'', ''('']) ''+'' =
       Inr ([''1'', ''2'', ''*'', ''+''], [''+'', ''(''])
   \<and> parseTokens \<lparr>maximumDiceCount = None\<rparr> [''1'', ''-'', ''d6'', ''-'', ''3''] =
       Inr (Some (InfixArithmeticExpression
         (InfixArithmeticExpression (NumericalExpression (Fin 1))
            (CountedDiceRollExpression (Fin 1) (DiceRollExpression (Fin 6))) Minus)
         (NumericalExpression (Fin 3)) Minus))
   \<and> parseTokens \<lparr>maximumDiceCount = None\<rparr> [''1'', ''-'', ''d6'', ''*'', ''3''] =
       Inr (Some (InfixArithmeticExpression (NumericalExpression (Fin 1))
         (InfixArithmeticExpression
            (CountedDiceRollExpression (Fin 1) (DiceRollExpression (Fin 6)))
            (NumericalExpression (Fin 3)) Times) Minus))
   \<and> parse \<lparr>maximumDiceCount = None\<rparr> ''1-d6-3'' =
       Inr (Some (InfixArithmeticExpression
         (InfixArithmeticExpression (NumericalExpression (Fin 1))
            (CountedDiceRollExpression (Fin 1) (DiceRollExpression (Fin 6))) Minus)
         (NumericalExpression (Fin 3)) Minus))
   \<and> parse \<lparr>maximumDiceCount = None\<rparr> ''1-d6*3'' =
       Inr (Some (InfixArithmeticExpression (NumericalExpression (Fin 1))
         (InfixArithmeticExpression
            (CountedDiceRollExpression (Fin 1) (DiceRollExpression (Fin 6)))
            (NumericalExpression (Fin 3)) Times) Minus))"
proof -
  have h0: "operators ''+'' \<noteq> None \<and> operators ''/'' \<noteq> None \<and> operators ''-'' \<noteq> None"
    by (simp add: operators_def)
  have h1: "expressionForPrimitive ''1'' = Inr (NumericalExpression (Fin 1))
    \<and> expressionForPrimitive ''d6'' =
       Inr (CountedDiceRollExpression (Fin 1) (DiceRollExpression (Fin 6)))
    \<and> expressionForPrimitive ''3'' = Inr (NumericalExpression (Fin 3))"
    by code_simp
  have h2: "\<exists>x y. operators ''-'' = Some x \<and> operators ''-'' = Some y"
    by (simp add: operators_def)
  have e1: "shuntingYardStep ([''1'', ''2''], [''*'', ''+'', ''('']) ''+'' =
       Inr ([''1'', ''2'', ''*'', ''+''], [''+'', ''(''])"
    by code_simp
  have e2: "parse \<lparr>maximumDiceCount = None\<rparr> ''1-d6-3'' =
       Inr (Some (InfixArithmeticExpression
         (InfixArithmeticExpression (NumericalExpression (Fin 1))
            (CountedDiceRollExpression (Fin 1) (DiceRollExpression (Fin 6))) Minus)
         (NumericalExpression (Fin 3)) Minus))"
    by code_simp
  have e3: "parse \<lparr>maximumDiceCount = None\<rparr> ''1-d6*3'' =
       Inr (Some (InfixArithmeticExpression (NumericalExpression (Fin 1))
         (InfixArithmeticExpression
            (CountedDiceRollExpression (Fin 1) (DiceRollExpression (Fin 6)))
            (NumericalExpression (Fin 3)) Times) Minus))"
    by code_simp
  from h2 obtain x y where xy: "operators ''-'' = Some x" "operators ''-'' = Some y" by blast
  from left_associative_precedence [of "''+''" "[''1'', ''2'']" "[''*'', ''+'', ''('']"
      "''1''" "NumericalExpression (Fin 1)" "''d6''"
      "CountedDiceRollExpression (Fin 1) (DiceRollExpression (Fin 6))"
      "''3''" "NumericalExpression (Fin 3)" "''-''" x "''-''" y]
    h0 h1 xy e1 e2 e3
  show ?thesis by blast
qed

section \<open>The comma\<close>

lemma step_comma:
  "shuntingYardStep (out, ops) '','' =
     (if ''('' \<in> set ops
      then Inr (out @ takeWhile (\<lambda>t. t \<noteq> ''('') ops, dropWhile (\<lambda>t. t \<noteq> ''('') ops)
      else Inl (DiceParserSyntaxError MisplacedComma))"
proof -
  have k: "\<not> isTokenGroupStart (Some '','')" "\<not> isTokenGroupEnd (Some '','')"
    by (simp_all add: isTokenGroupStart_def isTokenGroupEnd_def)
  have "dropWhile (\<lambda>t. t \<noteq> ''('') ops = [] \<longleftrightarrow> ''('' \<notin> set ops"
    by (auto simp add: dropWhile_eq_Nil_conv)
  then show ?thesis by (simp add: shuntingYardStep_def k popToGroupStart_eq)
qed

lemma dropWhile_Cons_subset:
  "dropWhile P xs = t # r \<Longrightarrow> x \<in> set r \<Longrightarrow> x \<in> set xs"
  by (metis list.set_intros(2) set_dropWhileD)

lemma step_operatorStack:
  assumes "shuntingYardStep (out, ops) token = Inr (out', ops')"
  shows "set ops' \<subseteq> insert token (set ops)"
  using assms
  by (auto simp add: shuntingYardStep_def popToGroupStart_eq popOperators_eq
      split: if_splits list.splits dest: set_dropWhileD dropWhile_Cons_subset)

lemma loop_operatorStack:
  "shuntingYardLoop tokens (out, ops) = Inr (out', ops') \<Longrightarrow> set ops' \<subseteq> set tokens \<union> set ops"
proof (induction tokens arbitrary: out ops)
  case Nil
  then show ?case by simp
next
  case (Cons t tokens)
  then obtain o1 p1 where s: "shuntingYardStep (out, ops) t = Inr (o1, p1)"
    and l: "shuntingYardLoop tokens (o1, p1) = Inr (out', ops')"
    by (auto split: sum.splits)
  from Cons.IH [OF l] step_operatorStack [OF s] show ?case by auto
qed

lemma loop_append:
  "shuntingYardLoop (xs @ ys) st =
     (case shuntingYardLoop xs st of Inl e \<Rightarrow> Inl e | Inr st' \<Rightarrow> shuntingYardLoop ys st')"
  by (induction xs arbitrary: st) (simp_all split: sum.splits)

lemma step_error_syntax:
  "shuntingYardStep st token = Inl e \<Longrightarrow> \<exists>issue. e = DiceParserSyntaxError issue"
  by (cases st) (auto simp add: shuntingYardStep_def split: if_splits prod.splits list.splits)

lemma loop_error_syntax:
  "shuntingYardLoop tokens st = Inl e \<Longrightarrow> \<exists>issue. e = DiceParserSyntaxError issue"
proof (induction tokens arbitrary: st)
  case Nil
  then show ?case by simp
next
  case (Cons t tokens)
  then show ?case
    by (cases "shuntingYardStep st t") (auto dest: step_error_syntax)
qed

text \<open>
  C2, as amended. The conversion fails at a comma with the syntax error of a misplaced
  comma exactly when the stack of pending operators holds no opening parenthesis;
  otherwise the operators above the parenthesis go to the output, the parenthesis stays
  and the comma is dropped. So a comma that no opening parenthesis precedes makes the
  conversion, and with it \<^verbatim>\<open>parse\<close>, fail with a syntax error, while a comma inside
  parentheses can be part of an input that parses.
\<close>

theorem comma_resolution:
  "shuntingYardStep (out, ops) '','' =
     (if ''('' \<in> set ops
      then Inr (out @ takeWhile (\<lambda>t. t \<noteq> ''('') ops, dropWhile (\<lambda>t. t \<noteq> ''('') ops)
      else Inl (DiceParserSyntaxError MisplacedComma))
   \<and> (''('' \<notin> set pre \<longrightarrow>
        (\<exists>issue. shuntingYardConversion (pre @ '','' # post) = Inl (DiceParserSyntaxError issue)))"
proof (intro conjI impI)
  show "shuntingYardStep (out, ops) '','' =
     (if ''('' \<in> set ops
      then Inr (out @ takeWhile (\<lambda>t. t \<noteq> ''('') ops, dropWhile (\<lambda>t. t \<noteq> ''('') ops)
      else Inl (DiceParserSyntaxError MisplacedComma))"
    by (rule step_comma)
next
  assume pre: "''('' \<notin> set pre"
  show "\<exists>issue. shuntingYardConversion (pre @ '','' # post) = Inl (DiceParserSyntaxError issue)"
  proof (cases "shuntingYardLoop pre ([], [])")
    case (Inl e)
    then have "shuntingYardLoop (pre @ '','' # post) ([], []) = Inl e"
      by (simp add: loop_append)
    moreover obtain issue where "e = DiceParserSyntaxError issue"
      using loop_error_syntax [OF Inl] by blast
    ultimately show ?thesis by (simp add: shuntingYardConversion_def)
  next
    case (Inr st)
    obtain o1 p1 where st: "st = (o1, p1)" by (cases st)
    from loop_operatorStack [OF Inr [unfolded st]] pre have "''('' \<notin> set p1" by auto
    then have "shuntingYardLoop (pre @ '','' # post) ([], []) =
        Inl (DiceParserSyntaxError MisplacedComma)"
      by (simp add: loop_append Inr st step_comma)
    then show ?thesis by (simp add: shuntingYardConversion_def)
  qed
qed

theorem comma_resolution_witness:
  "''('' \<notin> set [''1'']
   \<and> (\<exists>issue. shuntingYardConversion ([''1''] @ '','' # [''2'']) =
         Inl (DiceParserSyntaxError issue))
   \<and> tokenize ''1,2'' = Inr ([''1''] @ '','' # [''2''])
   \<and> parse \<lparr>maximumDiceCount = None\<rparr> ''1,2'' = Inl (DiceParserSyntaxError MisplacedComma)"
proof -
  have h: "''('' \<notin> set [''1'']" by simp
  have e: "tokenize ''1,2'' = Inr ([''1''] @ '','' # [''2''])
     \<and> parse \<lparr>maximumDiceCount = None\<rparr> ''1,2'' = Inl (DiceParserSyntaxError MisplacedComma)"
    by code_simp
  from comma_resolution [of "[]" "[]" "[''1'']" "[''2'']"] h e show ?thesis by blast
qed

theorem comma_counterexample:
  "tokenize ''(1,+2)'' = Inr [''('', ''1'', '','', ''+'', ''2'', '')'']
   \<and> parse \<lparr>maximumDiceCount = None\<rparr> ''(1,+2)'' =
       Inr (Some (InfixArithmeticExpression (NumericalExpression (Fin 1))
                    (NumericalExpression (Fin 2)) Plus))"
  by code_simp

section \<open>What a primitive can be\<close>

text \<open>The shape of what \<^verbatim>\<open>expressionForPrimitive\<close> returns: a number, or a counted roll
  whose count is at least 1 and whose size is a number.\<close>

lemma primitive_shape:
  assumes "expressionForPrimitive token = Inr x"
  shows "(\<exists>v. x = NumericalExpression v) \<or>
         (\<exists>c s. x = CountedDiceRollExpression c (DiceRollExpression s)
            \<and> js_ge c (Fin 1) \<and> \<not> isNaN s)"
proof (cases "CHR ''d'' \<in> set (toLowerCase token)")
  case False
  then show ?thesis using assms
    by (auto simp add: expressionForPrimitive_def Let_def split: if_splits)
next
  case True
  let ?parts = "split CHR ''d'' (toLowerCase token)"
  let ?cp = "if ?parts ! 0 = [] then ''1'' else ?parts ! 0"
  from True assms have n1: "isNumeric (?parts ! 1)"
    and n0: "isNumeric ?cp" and ge: "\<not> js_lt (parseFloat ?cp) (Fin 1)"
    and x: "x = CountedDiceRollExpression (parseFloat ?cp)
                  (DiceRollExpression (parseFloat (?parts ! 1)))"
    by (auto simp add: expressionForPrimitive_def Let_def split: if_splits)
  from n0 ge have "js_ge (parseFloat ?cp) (Fin 1)" by (simp add: isNumeric_def js_ge_def)
  moreover from n1 have "\<not> isNaN (parseFloat (?parts ! 1))" by (simp add: isNumeric_def)
  ultimately show ?thesis using x by blast
qed

section \<open>What a token can be\<close>

lemma tokenizeLoop_Cons:
  assumes "tokenizeLoop prevC (c # rest) tokens current added = Inr res"
  shows "((isWord c \<or> (c = CHR ''-'' \<and> current = [])) \<and>
           tokenizeLoop [c] rest tokens (current @ [c]) added = Inr res)
       \<or> (c = CHR ''.'' \<and> tokenizeLoop [c] rest tokens (current @ [c]) True = Inr res)
       \<or> (c = CHR '' '' \<and> tokenizeLoop [c] rest tokens current added = Inr res)
       \<or> (\<not> isWord c \<and> isSpecialToken [c] \<and>
           tokenizeLoop [c] rest ((if current \<noteq> [] then tokens @ [current] else tokens) @ [[c]])
             [] False = Inr res)"
proof -
  let ?unary = "c = CHR ''-'' \<and> \<not> current \<noteq> [] \<and>
             (top tokens = None \<or> top tokens = Some '','' \<or> isTokenGroupStart (top tokens)
              \<or> isCharOperator (top tokens)) \<and>
             list_ex isDigit (take 1 rest)"
  show ?thesis
  proof (cases "isCharPrimitive [c] \<or> ?unary")
    case True
    with assms have "tokenizeLoop [c] rest tokens (current @ [c]) added = Inr res"
      by (simp add: Let_def)
    with True show ?thesis by (auto simp add: isCharPrimitive_def)
  next
    case False
    then have nw: "\<not> isWord c" by (simp add: isCharPrimitive_def)
    show ?thesis
    proof (cases "c = CHR ''.''")
      case True
      with False assms have "tokenizeLoop [c] rest tokens (current @ [c]) True = Inr res"
        by (simp add: Let_def split: if_splits)
      with True show ?thesis by blast
    next
      case dot: False
      show ?thesis
      proof (cases "c = CHR '' ''")
        case True
        with False dot assms have "tokenizeLoop [c] rest tokens current added = Inr res"
          by (simp add: Let_def split: if_splits)
        with True show ?thesis by blast
      next
        case sp: False
        let ?delim = "isCharOperator (Some [c]) \<or> isTokenGroupStart (Some [c])
                 \<or> isTokenGroupEnd (Some [c]) \<or> c = CHR '',''"
        from False dot sp assms have d: "?delim"
          by (simp add: Let_def split: if_splits)
        with False dot sp assms have "tokenizeLoop [c] rest
            ((if current \<noteq> [] then tokens @ [current] else tokens) @ [[c]]) [] False = Inr res"
          by (simp add: Let_def split: if_splits)
        moreover from d have "isSpecialToken [c]"
          by (auto simp add: isSpecialToken_def isCharOperator_def)
        ultimately show ?thesis using nw by blast
      qed
    qed
  qed
qed

lemma isWord_not_minus: "isWord c \<Longrightarrow> c \<noteq> CHR ''-''"
  by (auto simp add: isWord_def isDigit_def code_def)

lemma tokenizeLoop_minus:
  assumes "tokenizeLoop prevC rest tokens current added = Inr (tokens', current')"
    and "\<forall>t\<in>set tokens. CHR ''-'' \<notin> set (tl t)" and "CHR ''-'' \<notin> set (tl current)"
  shows "(\<forall>t\<in>set tokens'. CHR ''-'' \<notin> set (tl t)) \<and> CHR ''-'' \<notin> set (tl current')"
  using assms
proof (induction rest arbitrary: prevC tokens current added)
  case Nil
  then show ?case by simp
next
  case (Cons c rest)
  from tokenizeLoop_Cons [OF Cons.prems(1)] consider
      (word) "isWord c \<or> (c = CHR ''-'' \<and> current = [])"
        "tokenizeLoop [c] rest tokens (current @ [c]) added = Inr (tokens', current')"
    | (dot) "c = CHR ''.''"
        "tokenizeLoop [c] rest tokens (current @ [c]) True = Inr (tokens', current')"
    | (space) "tokenizeLoop [c] rest tokens current added = Inr (tokens', current')"
    | (delim) "tokenizeLoop [c] rest
        ((if current \<noteq> [] then tokens @ [current] else tokens) @ [[c]]) [] False =
        Inr (tokens', current')"
    by blast
  then show ?case
  proof cases
    case word
    then have "CHR ''-'' \<notin> set (tl (current @ [c]))"
      using Cons.prems(3) isWord_not_minus [of c] by (cases current) auto
    from Cons.IH [OF word(2) Cons.prems(2) this] show ?thesis .
  next
    case dot
    then have "CHR ''-'' \<notin> set (tl (current @ [c]))"
      using Cons.prems(3) by (cases current) auto
    from Cons.IH [OF dot(2) Cons.prems(2) this] show ?thesis .
  next
    case space
    from Cons.IH [OF space Cons.prems(2,3)] show ?thesis .
  next
    case delim
    have "\<forall>t\<in>set ((if current \<noteq> [] then tokens @ [current] else tokens) @ [[c]]).
        CHR ''-'' \<notin> set (tl t)"
      using Cons.prems(2,3) by auto
    from Cons.IH [OF delim this] show ?thesis by simp
  qed
qed

lemma tokenize_minus:
  assumes "tokenize val = Inr tokens" and "t \<in> set tokens"
  shows "CHR ''-'' \<notin> set (tl t)"
proof -
  from assms(1) obtain ts cur
    where l: "tokenizeLoop [] (collapseSpaces (trim val)) [] [] False = Inr (ts, cur)"
      and t: "tokens = (if cur \<noteq> [] then ts @ [cur] else ts)"
    by (auto simp add: tokenize_def Let_def split: sum.splits)
  from tokenizeLoop_minus [OF l] have "(\<forall>t\<in>set ts. CHR ''-'' \<notin> set (tl t)) \<and> CHR ''-'' \<notin> set (tl cur)"
    by simp
  with t assms(2) show ?thesis by (auto split: if_splits)
qed

section \<open>What the conversion and the builder keep\<close>

lemma step_tokens:
  assumes "shuntingYardStep (out, ops) token = Inr (out', ops')"
  shows "set out' \<union> set ops' \<subseteq> insert token (set out \<union> set ops)"
  using assms
  by (auto simp add: shuntingYardStep_def popToGroupStart_eq popOperators_eq
      split: if_splits list.splits
      dest: set_dropWhileD set_takeWhileD dropWhile_Cons_subset)

lemma loop_tokens:
  "shuntingYardLoop tokens (out, ops) = Inr (out', ops') \<Longrightarrow>
   set out' \<union> set ops' \<subseteq> set tokens \<union> set out \<union> set ops"
proof (induction tokens arbitrary: out ops)
  case Nil
  then show ?case by simp
next
  case (Cons t tokens)
  then obtain o1 p1 where s: "shuntingYardStep (out, ops) t = Inr (o1, p1)"
    and l: "shuntingYardLoop tokens (o1, p1) = Inr (out', ops')"
    by (auto split: sum.splits)
  from Cons.IH [OF l] step_tokens [OF s] show ?case by auto
qed

lemma popRemaining_tokens:
  "popRemaining out ops = Inr out' \<Longrightarrow> set out' \<subseteq> set out \<union> set ops"
proof (induction ops arbitrary: out)
  case Nil
  then show ?case by simp
next
  case (Cons a ops)
  then have "popRemaining (out @ [a]) ops = Inr out'" by (simp split: if_splits)
  from Cons.IH [OF this] show ?case by auto
qed

lemma conversion_tokens:
  assumes "shuntingYardConversion tokens = Inr rpn"
  shows "set rpn \<subseteq> set tokens"
proof -
  from assms obtain out ops where l: "shuntingYardLoop tokens ([], []) = Inr (out, ops)"
    and p: "popRemaining out ops = Inr rpn"
    by (auto simp add: shuntingYardConversion_def split: sum.splits)
  from loop_tokens [OF l] popRemaining_tokens [OF p] show ?thesis by auto
qed

lemma popParams_two:
  "popParams 2 [] stack =
     (case stack of
        right # left # rest \<Rightarrow> Inr ([right, left], rest)
      | _ \<Rightarrow> Inl (DiceParserSyntaxError IncorrectArguments))"
  by (simp add: numeral_2_eq_2 split: list.splits)

lemma operators_Some:
  assumes "operators token = Some operator"
  shows "arguments operator = 2"
    and "\<exists>op. operation operator = (\<lambda>left right. InfixArithmeticExpression left right op)"
  using assms by (auto simp add: operators_def split: if_splits)

text \<open>The two ways a step of the builder succeeds: an operator of the table on a stack
  of at least two expressions, or a primitive within the limit of dice.\<close>

lemma rpnStep_Inr:
  assumes "rpnStep maxCount (stack, dc) token = Inr (stack', dc')"
  shows "(operators token \<noteq> None \<and>
          (\<exists>op right left rest. stack = right # left # rest \<and>
             stack' = InfixArithmeticExpression left right op # rest \<and> dc' = dc))
       \<or> (\<not> isTokenOperator (Some token) \<and>
          (\<exists>x. expressionForPrimitive token = Inr x \<and> stack' = x # stack \<and>
             (case (maxCount, x) of
                (Some m, CountedDiceRollExpression count d) \<Rightarrow>
                   dc' = js_add dc count \<and> \<not> js_gt dc' m
              | _ \<Rightarrow> dc' = dc)))"
proof (cases "isTokenOperator (Some token)")
  case True
  with assms obtain operator where o: "operators token = Some operator"
    by (auto simp add: rpnStep_def split: option.splits)
  from operators_Some [OF o] obtain op where
    a: "arguments operator = 2"
    and f: "operation operator = (\<lambda>left right. InfixArithmeticExpression left right op)"
    by blast
  from assms True o a f show ?thesis
    by (auto simp add: rpnStep_def popParams_two split: list.splits)
next
  case False
  with assms obtain x where x: "expressionForPrimitive token = Inr x"
    by (auto simp add: rpnStep_def split: sum.splits)
  from assms False x show ?thesis
    by (auto simp add: rpnStep_def Let_def split: option.splits DiceExpression.splits if_splits)
qed

lemma rpnLoop_invariant:
  assumes "rpnLoop maxCount tokens (stack, dc) = Inr (stack', dc')"
    and "\<forall>e\<in>set stack. P e"
    and "\<And>t x. t \<in> set tokens \<Longrightarrow> expressionForPrimitive t = Inr x \<Longrightarrow> P x"
    and "\<And>l r op. P l \<Longrightarrow> P r \<Longrightarrow> P (InfixArithmeticExpression l r op)"
  shows "\<forall>e\<in>set stack'. P e"
  using assms(1,2,3)
proof (induction tokens arbitrary: stack dc)
  case Nil
  then show ?case by simp
next
  case (Cons t tokens)
  then obtain s1 d1 where s: "rpnStep maxCount (stack, dc) t = Inr (s1, d1)"
    and l: "rpnLoop maxCount tokens (s1, d1) = Inr (stack', dc')"
    by (auto split: sum.splits)
  have "\<forall>e\<in>set s1. P e"
    using rpnStep_Inr [OF s] Cons.prems(2) Cons.prems(3) [of t] assms(4) by auto
  moreover have "P x" if "u \<in> set tokens" "expressionForPrimitive u = Inr x" for u x
    using Cons.prems(3) [of u x] that by simp
  ultimately show ?case by (rule Cons.IH [OF l])
qed

section \<open>Die sizes\<close>

text \<open>A number that is not negative: \<open>+\<infinity>\<close>, or a finite number from the positive zero
  on.\<close>

lemma not_negative_cases:
  "(v = PInf \<or> (\<exists>x. 0 \<le> x \<and> v = Fin x)) \<longleftrightarrow> (js_ge v (Fin 0) \<and> \<not> negative v)"
  by (cases v) (auto simp add: js_ge_def)

lemma scanExponent_nonneg:
  assumes "0 \<le> m" and "scanExponent m s = (v, r)"
  shows "v = PInf \<or> (\<exists>x. 0 \<le> x \<and> v = Fin x)"
proof -
  have "\<exists>y. 0 \<le> y \<and> v = toDouble y"
  proof (cases "\<exists>e t. s = e # t \<and> (e = CHR ''e'' \<or> e = CHR ''E'')")
    case False
    then have "scanExponent m s = (toDouble m, s)"
      by (auto simp add: scanExponent_def split: list.splits)
    with assms show ?thesis by auto
  next
    case True
    then obtain e t where s: "s = e # t" and e: "e = CHR ''e'' \<or> e = CHR ''E''" by blast
    let ?t = "if t \<noteq> [] \<and> (hd t = CHR ''+'' \<or> hd t = CHR ''-'') then tl t else t"
    let ?ed = "takeWhile isDigit ?t"
    show ?thesis
    proof (cases "?ed = []")
      case True
      with s e have "scanExponent m s = (toDouble m, s)"
        by (simp add: scanExponent_def Let_def)
      with assms show ?thesis by auto
    next
      case False
      with s e have "scanExponent m s =
          (toDouble (if t \<noteq> [] \<and> hd t = CHR ''-'' then m / 10 ^ decimalValue ?ed
                     else m * 10 ^ decimalValue ?ed), dropWhile isDigit ?t)"
        by (simp add: scanExponent_def Let_def)
      moreover have "0 \<le> (if t \<noteq> [] \<and> hd t = CHR ''-'' then m / 10 ^ decimalValue ?ed
                     else m * 10 ^ decimalValue ?ed)"
        using assms(1) by simp
      ultimately show ?thesis using assms(2) by (metis fst_conv)
    qed
  qed
  then show ?thesis using toDouble_nonneg by auto
qed

lemma scanUnsigned_nonneg:
  assumes "scanUnsigned s = Some (v, r)"
  shows "v = PInf \<or> (\<exists>x. 0 \<le> x \<and> v = Fin x)"
proof (cases "take 8 s = ''Infinity''")
  case True
  with assms show ?thesis by (simp add: scanUnsigned_def)
next
  case inf: False
  let ?ip = "takeWhile isDigit s" and ?s2 = "dropWhile isDigit s"
  let ?fp = "takeWhile isDigit (tl ?s2)" and ?s3 = "dropWhile isDigit (tl ?s2)"
  let ?m = "real (decimalValue ?ip) + real (decimalValue ?fp) / 10 ^ length ?fp"
  show ?thesis
  proof (cases "?s2 \<noteq> [] \<and> hd ?s2 = CHR ''.''")
    case True
    with assms inf have "scanExponent ?m ?s3 = (v, r)"
      by (simp add: scanUnsigned_def Let_def split: if_splits)
    moreover have "0 \<le> ?m" by simp
    ultimately show ?thesis by (rule scanExponent_nonneg [rotated])
  next
    case False
    with assms inf have "scanExponent (real (decimalValue ?ip)) ?s2 = (v, r)"
      by (simp add: scanUnsigned_def Let_def split: if_splits)
    moreover have "0 \<le> real (decimalValue ?ip)" by simp
    ultimately show ?thesis by (rule scanExponent_nonneg [rotated])
  qed
qed

lemma parseFloat_nonneg:
  assumes "CHR ''-'' \<notin> set s" and "\<not> isNaN (parseFloat s)"
  shows "parseFloat s = PInf \<or> (\<exists>x. 0 \<le> x \<and> parseFloat s = Fin x)"
proof -
  have m: "CHR ''-'' \<notin> set (trimStart s)"
    using assms(1) unfolding trimStart_def by (meson set_dropWhileD)
  then have h: "trimStart s \<noteq> [] \<Longrightarrow> hd (trimStart s) \<noteq> CHR ''-''"
    by (cases "trimStart s") auto
  from assms(2) obtain r where "scanDecimal (trimStart s) = Some (parseFloat s, r)"
    by (auto simp add: parseFloat_def split: option.splits)
  then have "\<exists>t. scanUnsigned t = Some (parseFloat s, r)"
    using h by (auto simp add: scanDecimal_def split: if_splits)
  then show ?thesis using scanUnsigned_nonneg by blast
qed

lemma split_nonempty: "split d s \<noteq> []"
  by (induction s) (auto split: list.splits)

lemma split_sep_length: "d \<in> set s \<Longrightarrow> 2 \<le> length (split d s)"
proof (induction s)
  case Nil
  then show ?case by simp
next
  case (Cons c s)
  show ?case
  proof (cases "c = d")
    case True
    then show ?thesis using split_nonempty [of d s] by (cases "split d s") auto
  next
    case False
    with Cons show ?thesis by (cases "split d s") auto
  qed
qed

lemma split_two: "split d s = [a, b] \<Longrightarrow> s = a @ d # b"
proof (induction s arbitrary: a)
  case Nil
  then show ?case by simp
next
  case (Cons c s)
  show ?case
  proof (cases "c = d")
    case True
    with Cons.prems have "a = []" "split d s = [b]" by simp_all
    moreover have "d \<notin> set s"
      using split_sep_length [of d s] \<open>split d s = [b]\<close> by auto
    ultimately show ?thesis using True split_no_sep [of d s] by simp
  next
    case False
    with Cons.prems obtain p where "split d s = [p, b]" "a = c # p"
      by (auto split: list.splits)
    with Cons.IH [of p] show ?thesis by simp
  qed
qed

lemma lowerChar_minus: "lowerChar c = CHR ''-'' \<Longrightarrow> c = CHR ''-''"
proof (cases "(65 \<le> code c \<and> code c \<le> 90) \<or> (192 \<le> code c \<and> code c \<le> 222 \<and> code c \<noteq> 215)")
  case True
  assume a: "lowerChar c = CHR ''-''"
  from True have "lowerChar c = char_of (code c + 32)" by (simp add: lowerChar_def)
  moreover from True have "code (char_of (code c + 32)) = code c + 32" by (auto simp add: code_def)
  moreover from a have "code (lowerChar c) = 45" by (simp add: code_def)
  ultimately show ?thesis using True by auto
next
  case False
  assume a: "lowerChar c = CHR ''-''"
  from False have "lowerChar c = c" unfolding lowerChar_def by (rule if_not_P)
  with a show ?thesis by simp
qed

lemma length_two: "length xs = 2 \<Longrightarrow> \<exists>a b. xs = [a, b]"
  by (cases xs; cases "tl xs") auto

lemma primitive_size_nonneg:
  assumes "expressionForPrimitive token = Inr (CountedDiceRollExpression c (DiceRollExpression sz))"
    and "CHR ''-'' \<notin> set (tl token)"
  shows "sz = PInf \<or> (\<exists>x. 0 \<le> x \<and> sz = Fin x)"
proof -
  let ?parts = "split CHR ''d'' (toLowerCase token)"
  from assms(1) have len: "length ?parts = 2" and s: "parseFloat (?parts ! 1) = sz"
    and n: "isNumeric (?parts ! 1)"
    by (auto simp add: expressionForPrimitive_def Let_def split: if_splits)
  from length_two [OF len] obtain a b where ab: "?parts = [a, b]" by blast
  from split_two [OF ab] have "set b \<subseteq> set (tl (toLowerCase token))"
    by (cases a) auto
  moreover have "CHR ''-'' \<notin> set (tl (toLowerCase token))"
  proof
    assume "CHR ''-'' \<in> set (tl (toLowerCase token))"
    then obtain c where "c \<in> set (tl token)" "lowerChar c = CHR ''-''"
      by (auto simp add: toLowerCase_def map_tl [symmetric])
    with lowerChar_minus [of c] assms(2) show False by simp
  qed
  ultimately have "CHR ''-'' \<notin> set (?parts ! 1)" using ab by auto
  moreover from n have "\<not> isNaN (parseFloat (?parts ! 1))" by (simp add: isNumeric_def)
  ultimately show ?thesis using parseFloat_nonneg [of "?parts ! 1"] s by simp
qed

lemma parse_Inr:
  assumes "parse this val = Inr res"
  shows "\<exists>tokens rpn. tokenize val = Inr tokens \<and> tokens \<noteq> []
           \<and> shuntingYardConversion tokens = Inr rpn
           \<and> expressionForReversePolishNotation this rpn = Inr res"
  using assms by (auto simp add: parse_def split: sum.splits if_splits)

lemma builder_Inr:
  assumes "expressionForReversePolishNotation this rpn = Inr (Some e)"
  shows "\<exists>dc. rpnLoop (maximumDiceCount this) rpn ([], Fin 0) = Inr ([e], dc)"
proof -
  from assms obtain stack dc
    where l: "rpnLoop (maximumDiceCount this) rpn ([], Fin 0) = Inr (stack, dc)"
      and n: "\<not> length stack > 1" "stack \<noteq> []" "e = last stack"
    by (auto simp add: expressionForReversePolishNotation_def split: sum.splits if_splits)
  from n have "stack = [e]" by (cases stack) auto
  with l show ?thesis by blast
qed

text \<open>
  C1, as amended. In every expression that \<^verbatim>\<open>parse\<close> returns, the size of every die
  node is a number that is not negative (neither NaN nor below zero nor the negative
  zero), and the count of every counted roll is a number that is at least 1. Zero is a
  size that \<^verbatim>\<open>parse\<close> accepts, and so is \<open>+\<infinity>\<close>, which a size beyond the range of the
  doubles gives.
\<close>

theorem parsed_die_sizes:
  assumes "parse this val = Inr (Some e)"
  shows "list_all (\<lambda>d. js_ge (dieSize d) (Fin 0) \<and> \<not> negative (dieSize d)) (dieNodes e)
       \<and> list_all (\<lambda>c. js_ge c (Fin 1)) (diceCounts e)"
proof -
  let ?P = "\<lambda>e. list_all (\<lambda>d. js_ge (dieSize d) (Fin 0) \<and> \<not> negative (dieSize d)) (dieNodes e)
       \<and> list_all (\<lambda>c. js_ge c (Fin 1)) (diceCounts e)"
  from parse_Inr [OF assms] obtain tokens rpn
    where t: "tokenize val = Inr tokens" and c: "shuntingYardConversion tokens = Inr rpn"
      and b: "expressionForReversePolishNotation this rpn = Inr (Some e)"
    by blast
  from builder_Inr [OF b] obtain dc
    where l: "rpnLoop (maximumDiceCount this) rpn ([], Fin 0) = Inr ([e], dc)" by blast
  have prim: "?P x" if "u \<in> set rpn" and x: "expressionForPrimitive u = Inr x" for u x
  proof -
    from that conversion_tokens [OF c] have "u \<in> set tokens" by auto
    from tokenize_minus [OF t this] have m: "CHR ''-'' \<notin> set (tl u)" .
    from primitive_shape [OF x] show ?thesis
    proof (elim disjE exE conjE)
      fix v assume "x = NumericalExpression v"
      then show ?thesis by simp
    next
      fix k sz
      assume xs: "x = CountedDiceRollExpression k (DiceRollExpression sz)"
        and k: "js_ge k (Fin 1)"
      from primitive_size_nonneg [OF x [unfolded xs] m]
      have "js_ge sz (Fin 0) \<and> \<not> negative sz" by (simp add: not_negative_cases)
      with xs k show ?thesis by simp
    qed
  qed
  have "\<forall>e\<in>set [e]. ?P e"
    by (rule rpnLoop_invariant [OF l, where P = ?P]) (use prim in auto)
  then show ?thesis by simp
qed

theorem parsed_die_sizes_witness:
  "parse \<lparr>maximumDiceCount = None\<rparr> ''2d6 + 4d0'' =
     Inr (Some (InfixArithmeticExpression
        (CountedDiceRollExpression (Fin 2) (DiceRollExpression (Fin 6)))
        (CountedDiceRollExpression (Fin 4) (DiceRollExpression (Fin 0))) Plus))
   \<and> list_all (\<lambda>d. js_ge (dieSize d) (Fin 0) \<and> \<not> negative (dieSize d))
        (dieNodes (InfixArithmeticExpression
          (CountedDiceRollExpression (Fin 2) (DiceRollExpression (Fin 6)))
          (CountedDiceRollExpression (Fin 4) (DiceRollExpression (Fin 0))) Plus))
   \<and> list_all (\<lambda>c. js_ge c (Fin 1))
        (diceCounts (InfixArithmeticExpression
          (CountedDiceRollExpression (Fin 2) (DiceRollExpression (Fin 6)))
          (CountedDiceRollExpression (Fin 4) (DiceRollExpression (Fin 0))) Plus))
   \<and> parse \<lparr>maximumDiceCount = None\<rparr> ''1e309d1e309'' =
     Inr (Some (CountedDiceRollExpression PInf (DiceRollExpression PInf)))
   \<and> list_all (\<lambda>d. js_ge (dieSize d) (Fin 0) \<and> \<not> negative (dieSize d))
        (dieNodes (CountedDiceRollExpression PInf (DiceRollExpression PInf)))
   \<and> list_all (\<lambda>c. js_ge c (Fin 1))
        (diceCounts (CountedDiceRollExpression PInf (DiceRollExpression PInf)))"
proof -
  have h: "parse \<lparr>maximumDiceCount = None\<rparr> ''2d6 + 4d0'' =
     Inr (Some (InfixArithmeticExpression
        (CountedDiceRollExpression (Fin 2) (DiceRollExpression (Fin 6)))
        (CountedDiceRollExpression (Fin 4) (DiceRollExpression (Fin 0))) Plus))"
    by code_simp
  have i: "parse \<lparr>maximumDiceCount = None\<rparr> ''1e309d1e309'' =
     Inr (Some (CountedDiceRollExpression PInf (DiceRollExpression PInf)))"
    by code_simp
  from parsed_die_sizes [OF h] parsed_die_sizes [OF i] h i show ?thesis by blast
qed

theorem die_size_zero_counterexample:
  "parse \<lparr>maximumDiceCount = None\<rparr> ''4d0'' =
     Inr (Some (CountedDiceRollExpression (Fin 4) (DiceRollExpression (Fin 0))))
   \<and> parse \<lparr>maximumDiceCount = None\<rparr> ''d0'' =
     Inr (Some (CountedDiceRollExpression (Fin 1) (DiceRollExpression (Fin 0))))
   \<and> \<not> list_all (\<lambda>d. js_ge (dieSize d) (Fin 1))
        (dieNodes (CountedDiceRollExpression (Fin 4) (DiceRollExpression (Fin 0))))"
  by code_simp

section \<open>The shape of a result\<close>

lemma diceRolled_rollDice:
  "diceRolled (fst (rollDice dice rnd j)) = [rollRecord rnd j (dieSize dice)]"
  by (cases dice) (simp add: rollRecord_def Let_def AccumulatedResult_def)

lemma rollRecords_append:
  "rollRecords rnd n (xs @ ys) = rollRecords rnd n xs @ rollRecords rnd (n + length xs) ys"
proof -
  have "[n..<n + (length xs + length ys)] = [n..<n + length xs] @ [n + length xs..<n + length xs + length ys]"
    by (metis add.assoc le_add1 upt_add_eq_append)
  then show ?thesis by (simp add: rollRecords_def)
qed

lemma rollRecords_replicate:
  "rollRecords rnd n (replicate k sz) = map (\<lambda>j. rollRecord rnd j sz) [n..<n + k]"
  by (simp add: rollRecords_def zip_replicate2 map_zip_map2 [symmetric] comp_def)

lemma roll_records:
  "roll e rnd n = Some (res, m) \<Longrightarrow>
   diceRolled res = rollRecords rnd n (dieSizes e) \<and> m = n + length (dieSizes e)"
proof (induction e arbitrary: n res m)
  case (NumericalExpression v)
  then show ?case by (auto simp add: AccumulatedResult_def rollRecords_def)
next
  case (Dice dice)
  then have "res = fst (rollDice dice rnd n)" "m = snd (rollDice dice rnd n)" by auto
  then show ?case
    by (simp add: diceRolled_rollDice snd_rollDice rollRecords_def del: rollDice.simps)
next
  case (CountedDiceRollExpression count dice)
  then have c: "count \<noteq> PInf" using roll_counted_PInf by auto
  obtain k where k: "rollCount count = Suc k" by (cases count) simp_all
  have "Some (res, m) = Some (foldl (accumulate dice rnd) (fst (rollDice dice rnd n))
      [Suc n..<n + rollCount count], n + rollCount count)"
    unfolding roll_counted [OF c, of dice rnd n, symmetric] CountedDiceRollExpression.prems ..
  then have res: "res = foldl (accumulate dice rnd) (fst (rollDice dice rnd n)) [Suc n..<n + rollCount count]"
    and m: "m = n + rollCount count"
    by simp_all
  have "diceRolled res = concat (map (\<lambda>j. diceRolled (fst (rollDice dice rnd j))) [n..<n + rollCount count])"
    unfolding res foldl_accumulate_dice k by (simp add: upt_conv_Cons del: upt_Suc rollDice.simps)
  also have "\<dots> = map (\<lambda>j. rollRecord rnd j (dieSize dice)) [n..<n + rollCount count]"
    unfolding diceRolled_rollDice by simp
  finally show ?case using m by (simp add: rollRecords_replicate)
next
  case (InfixArithmeticExpression l r operator)
  from InfixArithmeticExpression.prems obtain left n1 right
    where l: "roll l rnd n = Some (left, n1)" and r: "roll r rnd n1 = Some (right, m)"
      and res: "res = AccumulatedResult (arith operator (value_r left) (value_r right))
                 (diceRolled left @ diceRolled right)"
    by (auto split: option.splits)
  from InfixArithmeticExpression.IH(1) [OF l] InfixArithmeticExpression.IH(2) [OF r] res
  show ?case by (simp add: rollRecords_append AccumulatedResult_def)
qed

lemma size_rollRecord: "size_d (rollRecord rnd j sz) = sz"
  by (simp add: rollRecord_def Let_def AccumulatedResult_def)

lemma value_rollRecord:
  "value_d (rollRecord rnd j sz) = js_add (js_floor (js_mul (Fin (rnd j)) sz)) (Fin 1)"
  by (simp add: rollRecord_def Let_def AccumulatedResult_def)

lemma sizes_rollRecords: "map size_d (rollRecords rnd n sizes) = sizes"
proof -
  have "map size_d (map2 (rollRecord rnd) js sizes) = take (length js) sizes" for js
  proof (induction js arbitrary: sizes)
    case Nil
    then show ?case by simp
  next
    case (Cons a js)
    then show ?case by (cases sizes) (simp_all add: size_rollRecord)
  qed
  then show ?thesis by (simp add: rollRecords_def)
qed

lemma roll_total:
  "list_all (\<lambda>c. c \<noteq> PInf) (diceCounts e) \<Longrightarrow> \<exists>res m. roll e rnd n = Some (res, m)"
proof (induction e arbitrary: n)
  case (CountedDiceRollExpression count dice)
  then show ?case using roll_counted [of count dice rnd n] by simp
next
  case (InfixArithmeticExpression l r operator)
  then obtain left n1 where l: "roll l rnd n = Some (left, n1)" by fastforce
  from InfixArithmeticExpression obtain right n2 where "roll r rnd n1 = Some (right, n2)"
    by fastforce
  with l show ?case by simp
qed simp_all

lemma roll_unbounded:
  "\<not> list_all (\<lambda>c. c \<noteq> PInf) (diceCounts e) \<Longrightarrow> roll e rnd n = None"
proof (induction e arbitrary: n)
  case (CountedDiceRollExpression count dice)
  then show ?case using roll_counted_PInf [of dice rnd n] by simp
next
  case (InfixArithmeticExpression l r operator)
  show ?case
  proof (cases "roll l rnd n")
    case None
    then show ?thesis by simp
  next
    case (Some a)
    obtain left n1 where a: "a = (left, n1)" by (cases a)
    from Some InfixArithmeticExpression.IH(1) [of n]
    have "list_all (\<lambda>c. c \<noteq> PInf) (diceCounts l)" by auto
    with InfixArithmeticExpression.prems have "\<not> list_all (\<lambda>c. c \<noteq> PInf) (diceCounts r)"
      by simp
    from InfixArithmeticExpression.IH(2) [OF this, of n1] Some a show ?thesis by simp
  qed
qed simp_all

lemma nth_rollRecords:
  "j < length sizes \<Longrightarrow> rollRecords rnd n sizes ! j = rollRecord rnd (n + j) (sizes ! j)"
  by (simp add: rollRecords_def)

text \<open>
  C9, as amended. A roll of an expression returns a result, with one record for each die
  it rolls, when no count in it is \<open>+\<infinity>\<close> and the dice it rolls are fewer than \<open>2\<^sup>3\<^sup>2\<close> (an
  array of the language holds no more, and up to there the counter of the loop moves in
  steps of one). It never returns when a count is \<open>+\<infinity>\<close>, the count that \<^verbatim>\<open>parse\<close> gives
  to a dice primitive whose count part is beyond the range of the doubles. Two rolls of
  the same expression that return,
  whatever \<^verbatim>\<open>Math.random\<close> gives to each, have the same number of records with the
  same sizes in the same order. A roll draws one sample for each record, and the value of
  the \<open>j\<close>-th record is computed from the \<open>j\<close>-th sample drawn and the size of that record
  alone. (A result is a value of the model: it has no identity that two rolls could
  share.)
\<close>

theorem same_shape:
  "(list_all (\<lambda>c. c \<noteq> PInf) (diceCounts e) \<and> length (dieSizes e) < 2 ^ 32 \<longrightarrow>
      (\<exists>r m. roll e rnd n = Some (r, m) \<and> length (diceRolled r) = length (dieSizes e)))
   \<and> (\<not> list_all (\<lambda>c. c \<noteq> PInf) (diceCounts e) \<longrightarrow> roll e rnd n = None)
   \<and> (roll e rnd n = Some (r1, m1) \<and> roll e rnd' n' = Some (r2, m2) \<longrightarrow>
        length (diceRolled r1) = length (diceRolled r2)
      \<and> map size_d (diceRolled r1) = map size_d (diceRolled r2)
      \<and> m1 = n + length (diceRolled r1)
      \<and> (\<forall>j < length (diceRolled r1).
            value_d (diceRolled r1 ! j) =
              js_add (js_floor (js_mul (Fin (rnd (n + j))) (size_d (diceRolled r1 ! j)))) (Fin 1)))"
proof (intro conjI impI)
  assume "list_all (\<lambda>c. c \<noteq> PInf) (diceCounts e) \<and> length (dieSizes e) < 2 ^ 32"
  then have "list_all (\<lambda>c. c \<noteq> PInf) (diceCounts e)" by simp
  from roll_total [OF this] obtain r m where r: "roll e rnd n = Some (r, m)" by blast
  from roll_records [OF r] have "length (diceRolled r) = length (dieSizes e)"
    by (simp add: rollRecords_def)
  with r show "\<exists>r m. roll e rnd n = Some (r, m) \<and> length (diceRolled r) = length (dieSizes e)"
    by blast
next
  assume "\<not> list_all (\<lambda>c. c \<noteq> PInf) (diceCounts e)"
  from roll_unbounded [OF this] show "roll e rnd n = None" .
next
  assume a: "roll e rnd n = Some (r1, m1) \<and> roll e rnd' n' = Some (r2, m2)"
  then have d1: "diceRolled r1 = rollRecords rnd n (dieSizes e)"
    and m1: "m1 = n + length (dieSizes e)"
    and d2: "diceRolled r2 = rollRecords rnd' n' (dieSizes e)"
    using roll_records by blast+
  have s1: "map size_d (diceRolled r1) = dieSizes e"
    and s2: "map size_d (diceRolled r2) = dieSizes e"
    by (simp_all add: d1 d2 sizes_rollRecords)
  then have l1: "length (diceRolled r1) = length (dieSizes e)"
    and l2: "length (diceRolled r2) = length (dieSizes e)"
    by (metis length_map)+
  show "length (diceRolled r1) = length (diceRolled r2)" by (simp add: l1 l2)
  show "map size_d (diceRolled r1) = map size_d (diceRolled r2)" by (simp add: s1 s2)
  show "m1 = n + length (diceRolled r1)" by (simp add: m1 l1)
  show "\<forall>j < length (diceRolled r1).
            value_d (diceRolled r1 ! j) =
              js_add (js_floor (js_mul (Fin (rnd (n + j))) (size_d (diceRolled r1 ! j)))) (Fin 1)"
    unfolding l1 by (simp add: d1 nth_rollRecords value_rollRecord size_rollRecord)
qed

theorem same_shape_witness:
  "parse \<lparr>maximumDiceCount = None\<rparr> ''2d6+3'' =
     Inr (Some (InfixArithmeticExpression
        (CountedDiceRollExpression (Fin 2) (DiceRollExpression (Fin 6)))
        (NumericalExpression (Fin 3)) Plus))
   \<and> list_all (\<lambda>c. c \<noteq> PInf)
        (diceCounts (InfixArithmeticExpression
          (CountedDiceRollExpression (Fin 2) (DiceRollExpression (Fin 6)))
          (NumericalExpression (Fin 3)) Plus))
   \<and> length (dieSizes (InfixArithmeticExpression
          (CountedDiceRollExpression (Fin 2) (DiceRollExpression (Fin 6)))
          (NumericalExpression (Fin 3)) Plus)) < 2 ^ 32
   \<and> roll (InfixArithmeticExpression
        (CountedDiceRollExpression (Fin 2) (DiceRollExpression (Fin 6)))
        (NumericalExpression (Fin 3)) Plus) (\<lambda>j. 0) 0 =
       Some (AccumulatedResult (Fin 5) [dieRecord 0 6, dieRecord 0 6], 2)
   \<and> roll (InfixArithmeticExpression
        (CountedDiceRollExpression (Fin 2) (DiceRollExpression (Fin 6)))
        (NumericalExpression (Fin 3)) Plus) (\<lambda>j. 1 / 2) 5 =
       Some (AccumulatedResult (Fin 11) [dieRecord (1 / 2) 6, dieRecord (1 / 2) 6], 7)
   \<and> length (diceRolled (AccumulatedResult (Fin 5) [dieRecord 0 6, dieRecord 0 6])) =
       length (diceRolled (AccumulatedResult (Fin 11) [dieRecord (1 / 2) 6, dieRecord (1 / 2) 6]))
   \<and> map size_d (diceRolled (AccumulatedResult (Fin 5) [dieRecord 0 6, dieRecord 0 6])) =
       map size_d (diceRolled (AccumulatedResult (Fin 11) [dieRecord (1 / 2) 6, dieRecord (1 / 2) 6]))
   \<and> \<not> list_all (\<lambda>c. c \<noteq> PInf)
        (diceCounts (CountedDiceRollExpression PInf (DiceRollExpression (Fin 6))))
   \<and> roll (CountedDiceRollExpression PInf (DiceRollExpression (Fin 6))) (\<lambda>j. 0) 0 = None"
proof -
  let ?e = "InfixArithmeticExpression
        (CountedDiceRollExpression (Fin 2) (DiceRollExpression (Fin 6)))
        (NumericalExpression (Fin 3)) Plus"
  let ?u = "CountedDiceRollExpression PInf (DiceRollExpression (Fin 6))"
  have p: "parse \<lparr>maximumDiceCount = None\<rparr> ''2d6+3'' = Inr (Some ?e)"
    by code_simp
  have b: "list_all (\<lambda>c. c \<noteq> PInf) (diceCounts ?e)" "length (dieSizes ?e) < 2 ^ 32"
    by simp_all
  have r1: "roll ?e (\<lambda>j. 0) 0 = Some (AccumulatedResult (Fin 5) [dieRecord 0 6, dieRecord 0 6], 2)"
    by code_simp
  have r2: "roll ?e (\<lambda>j. 1 / 2) 5 =
       Some (AccumulatedResult (Fin 11) [dieRecord (1 / 2) 6, dieRecord (1 / 2) 6], 7)"
    by code_simp
  have u: "\<not> list_all (\<lambda>c. c \<noteq> PInf) (diceCounts ?u)" by simp
  from same_shape [of ?e "\<lambda>j. 0" 0
      "AccumulatedResult (Fin 5) [dieRecord 0 6, dieRecord 0 6]" 2 "\<lambda>j. 1 / 2" 5
      "AccumulatedResult (Fin 11) [dieRecord (1 / 2) 6, dieRecord (1 / 2) 6]" 7]
    same_shape [of ?u "\<lambda>j. 0" 0] p b r1 r2 u
  show ?thesis by blast
qed

text \<open>
  The input \<^verbatim>\<open>1e309d6\<close> is accepted, its count is \<open>+\<infinity>\<close>, and the roll of the expression
  never returns: the loop of the counted roll has no last round.
\<close>

theorem unbounded_count_counterexample:
  "parse \<lparr>maximumDiceCount = None\<rparr> ''1e309d6'' =
     Inr (Some (CountedDiceRollExpression PInf (DiceRollExpression (Fin 6))))
   \<and> roll (CountedDiceRollExpression PInf (DiceRollExpression (Fin 6))) (\<lambda>j. 0) 0 = None"
proof -
  have "parse \<lparr>maximumDiceCount = None\<rparr> ''1e309d6'' =
     Inr (Some (CountedDiceRollExpression PInf (DiceRollExpression (Fin 6))))"
    by code_simp
  then show ?thesis using roll_counted_PInf [of "DiceRollExpression (Fin 6)" "\<lambda>j. 0" 0] by simp
qed

section \<open>The limit of dice\<close>

lemma foldl_js_add_Fin:
  "list_all (\<lambda>c. \<exists>k. c = Fin k) cs \<Longrightarrow>
   foldl js_add (Fin a) cs = Fin (a + (\<Sum>c\<leftarrow>cs. case c of Fin k \<Rightarrow> k | _ \<Rightarrow> 0))"
  by (induction cs arbitrary: a) (auto simp add: add.assoc)

lemma countsFinite_counts: "countsFinite e \<Longrightarrow> list_all (\<lambda>c. \<exists>k. c = Fin k) (diceCounts e)"
  by (induction e) (auto split: jsnum.splits)

lemma countSum_counts: "countSum e = (\<Sum>c\<leftarrow>diceCounts e. case c of Fin k \<Rightarrow> k | _ \<Rightarrow> 0)"
  by (induction e) simp_all

lemma diceTotal_countSum: "countsFinite e \<Longrightarrow> diceTotal e = Fin (countSum e)"
  using foldl_js_add_Fin [OF countsFinite_counts, of e 0]
  by (simp add: diceTotal_def countSum_counts)

lemma countSum_nonneg: "countsFinite e \<Longrightarrow> 0 \<le> countSum e"
  by (induction e) (auto split: jsnum.splits)

lemma primitive_counts_ge:
  "expressionForPrimitive t = Inr x \<Longrightarrow> list_all (\<lambda>c. js_ge c (Fin 1)) (diceCounts x)"
  using primitive_shape [of t x] by auto

lemma whole_countsFinite:
  "list_all (\<lambda>c. js_ge c (Fin 1)) (diceCounts e) \<Longrightarrow> list_all isWhole (diceCounts e)
   \<Longrightarrow> countsFinite e"
  by (induction e) (auto simp add: isWhole_def js_ge_def split: jsnum.splits)

text \<open>The builder only adds to what the stack holds: a count on the stack stays
  there.\<close>

lemma rpnStep_finite_before:
  assumes "rpnStep maxCount (stack, d0) t = Inr (stack', d0')"
    and "\<forall>e\<in>set stack'. countsFinite e"
  shows "\<forall>e\<in>set stack. countsFinite e"
  using rpnStep_Inr [OF assms(1)] assms(2) by auto

lemma rpnLoop_finite_before:
  assumes "rpnLoop maxCount tokens (stack, d0) = Inr (stack', d0')"
    and "\<forall>e\<in>set stack'. countsFinite e"
  shows "\<forall>e\<in>set stack. countsFinite e"
  using assms
proof (induction tokens arbitrary: stack d0)
  case Nil
  then show ?case by simp
next
  case (Cons t tokens)
  then obtain s1 d1 where s: "rpnStep maxCount (stack, d0) t = Inr (s1, d1)"
    and l: "rpnLoop maxCount tokens (s1, d1) = Inr (stack', d0')"
    by (auto split: sum.splits)
  from Cons.IH [OF l Cons.prems(2)] have "\<forall>e\<in>set s1. countsFinite e" .
  from rpnStep_finite_before [OF s this] show ?case .
qed

text \<open>A step of the builder that succeeds without a limit, run with the limit \<open>M\<close> from
  a running total \<open>a\<close> within the limit.\<close>

lemma rpnStep_limit:
  assumes "rpnStep None (stack, d0) t = Inr (stack', d0')"
    and "\<forall>e\<in>set stack'. countsFinite e" and "a \<le> M"
  shows "\<exists>c. 0 \<le> c \<and> sum_list (map countSum stack') = sum_list (map countSum stack) + c
           \<and> rpnStep (Some (Fin M)) (stack, Fin a) t =
               (if M < a + c then Inl (DiceParserDiceCount (Fin M)) else Inr (stack', Fin (a + c)))"
proof -
  from rpnStep_Inr [OF assms(1)] consider
      (operator) op right left rest where "operators t \<noteq> None" "stack = right # left # rest"
        "stack' = InfixArithmeticExpression left right op # rest"
    | (primitive) x where "\<not> isTokenOperator (Some t)" "expressionForPrimitive t = Inr x"
        "stack' = x # stack"
    by blast
  then show ?thesis
  proof cases
    case operator
    then obtain operator where o: "operators t = Some operator" by auto
    from rpnStep_operator [OF o, of None right left rest d0] assms(1) operator
    have "stack' = operation operator left right # rest" by simp
    with rpnStep_operator [OF o, of "Some (Fin M)" right left rest "Fin a"] operator assms(3)
    show ?thesis by (intro exI [of _ 0]) simp
  next
    case primitive
    with assms(2) have f: "countsFinite x" by simp
    from primitive_shape [OF primitive(2)] show ?thesis
    proof (elim disjE exE conjE)
      fix v assume "x = NumericalExpression v"
      with primitive assms(3) show ?thesis
        by (intro exI [of _ 0]) (simp add: rpnStep_def)
    next
      fix c s
      assume x: "x = CountedDiceRollExpression c (DiceRollExpression s)"
      with f obtain k where "c = Fin k" and "1 \<le> k" by (cases c) simp_all
      with primitive x show ?thesis
        by (intro exI [of _ k]) (simp add: rpnStep_def js_gt_def)
    qed
  qed
qed

lemma rpnLoop_limit:
  assumes "rpnLoop None tokens (stack, d0) = Inr (stack', d0')"
    and "\<forall>e\<in>set stack'. countsFinite e" and "a \<le> M"
  shows "\<exists>c. 0 \<le> c \<and> sum_list (map countSum stack') = sum_list (map countSum stack) + c
           \<and> rpnLoop (Some (Fin M)) tokens (stack, Fin a) =
               (if M < a + c then Inl (DiceParserDiceCount (Fin M)) else Inr (stack', Fin (a + c)))"
  using assms
proof (induction tokens arbitrary: stack d0 a)
  case Nil
  then show ?case by (intro exI [of _ 0]) simp
next
  case (Cons t tokens)
  then obtain s1 d1 where s: "rpnStep None (stack, d0) t = Inr (s1, d1)"
    and l: "rpnLoop None tokens (s1, d1) = Inr (stack', d0')"
    by (auto split: sum.splits)
  from rpnLoop_finite_before [OF l Cons.prems(2)] have f1: "\<forall>e\<in>set s1. countsFinite e" .
  from rpnStep_limit [OF s f1 Cons.prems(3)] obtain c
    where c: "0 \<le> c" "sum_list (map countSum s1) = sum_list (map countSum stack) + c"
      and st: "rpnStep (Some (Fin M)) (stack, Fin a) t =
               (if M < a + c then Inl (DiceParserDiceCount (Fin M)) else Inr (s1, Fin (a + c)))"
    by blast
  show ?case
  proof (cases "M < a + c")
    case True
    from l have "\<exists>c'. 0 \<le> c' \<and> sum_list (map countSum stack') = sum_list (map countSum s1) + c'"
      using Cons.IH [OF l Cons.prems(2), of M] by blast
    then obtain c' where c': "0 \<le> c'"
      "sum_list (map countSum stack') = sum_list (map countSum s1) + c'" by blast
    with True c st show ?thesis by (intro exI [of _ "c + c'"]) simp
  next
    case False
    then have "a + c \<le> M" by simp
    from Cons.IH [OF l Cons.prems(2) this] obtain c' where c': "0 \<le> c'"
      "sum_list (map countSum stack') = sum_list (map countSum s1) + c'"
      and lt: "rpnLoop (Some (Fin M)) tokens (s1, Fin (a + c)) =
               (if M < a + c + c' then Inl (DiceParserDiceCount (Fin M))
                else Inr (stack', Fin (a + c + c')))"
      by blast
    with False c st show ?thesis by (intro exI [of _ "c + c'"]) (simp add: add.assoc)
  qed
qed

lemma builder_limit:
  assumes "expressionForReversePolishNotation (this\<lparr>maximumDiceCount := None\<rparr>) rpn = Inr (Some e)"
    and "countsFinite e" and "0 \<le> M"
  shows "expressionForReversePolishNotation (this\<lparr>maximumDiceCount := Some (Fin M)\<rparr>) rpn =
       (if M < countSum e then Inl (DiceParserDiceCount (Fin M)) else Inr (Some e))"
proof -
  from builder_Inr [OF assms(1)] obtain dc
    where l: "rpnLoop None rpn ([], Fin 0) = Inr ([e], dc)" by auto
  from assms(2) have "\<forall>x\<in>set [e]. countsFinite x" by simp
  from rpnLoop_limit [OF l this assms(3)] obtain c
    where "countSum e = c"
      and "rpnLoop (Some (Fin M)) rpn ([], Fin 0) =
             (if M < 0 + c then Inl (DiceParserDiceCount (Fin M)) else Inr ([e], Fin (0 + c)))"
    by auto
  then show ?thesis by (simp add: expressionForReversePolishNotation_def)
qed

lemma builder_counts_ge:
  assumes "expressionForReversePolishNotation this rpn = Inr (Some e)"
  shows "list_all (\<lambda>c. js_ge c (Fin 1)) (diceCounts e)"
proof -
  from builder_Inr [OF assms] obtain dc
    where l: "rpnLoop (maximumDiceCount this) rpn ([], Fin 0) = Inr ([e], dc)" by blast
  have "\<forall>e\<in>set [e]. list_all (\<lambda>c. js_ge c (Fin 1)) (diceCounts e)"
    by (rule rpnLoop_invariant [OF l]) (use primitive_counts_ge in auto)
  then show ?thesis by simp
qed

text \<open>
  C6. Take an input that parses, when \<^verbatim>\<open>maximumDiceCount\<close> is undefined, to an
  expression whose counts are whole numbers. With \<^verbatim>\<open>maximumDiceCount\<close> set to an integer
  \<open>M\<close> with \<open>0 \<le> M < 2\<^sup>5\<^sup>3\<close>, parsing it fails with the \<^verbatim>\<open>DiceCount\<close> error of \<open>M\<close> when
  the total of the counts of its dice primitives exceeds \<open>M\<close>, and gives the same expression
  otherwise: a total of exactly \<open>M\<close> succeeds, a total of \<open>M + 1\<close> fails. Setting
  \<^verbatim>\<open>maximumDiceCount\<close> back to undefined makes it parse again. (On whole numbers up to
  \<open>2\<^sup>5\<^sup>3\<close> the additions and the comparisons of the code are exact; a running total with
  a fraction is rounded at each addition, and the theorem does not speak of it.)
\<close>

theorem dice_count_limit:
  assumes "parse (this\<lparr>maximumDiceCount := None\<rparr>) val = Inr (Some e)"
    and "list_all isWhole (diceCounts e)" and "real M < 2 ^ 53"
  shows "parse (this\<lparr>maximumDiceCount := Some (Fin (real M))\<rparr>) val =
           (if js_gt (diceTotal e) (Fin (real M)) then Inl (DiceParserDiceCount (Fin (real M)))
            else Inr (Some e))
       \<and> (diceTotal e = Fin (real M) \<longrightarrow>
            parse (this\<lparr>maximumDiceCount := Some (Fin (real M))\<rparr>) val = Inr (Some e))
       \<and> (diceTotal e = Fin (real M + 1) \<longrightarrow>
            parse (this\<lparr>maximumDiceCount := Some (Fin (real M))\<rparr>) val =
              Inl (DiceParserDiceCount (Fin (real M))))
       \<and> parse (this\<lparr>maximumDiceCount := Some (Fin (real M))\<rparr>\<lparr>maximumDiceCount := None\<rparr>) val =
            Inr (Some e)"
proof -
  from parse_Inr [OF assms(1)] obtain tokens rpn
    where t: "tokenize val = Inr tokens" "tokens \<noteq> []"
      and c: "shuntingYardConversion tokens = Inr rpn"
      and b: "expressionForReversePolishNotation (this\<lparr>maximumDiceCount := None\<rparr>) rpn = Inr (Some e)"
    by blast
  have f: "countsFinite e"
    using whole_countsFinite [OF builder_counts_ge [OF b] assms(2)] .
  have "0 \<le> real M" by simp
  from builder_limit [OF b f this]
  have b': "expressionForReversePolishNotation (this\<lparr>maximumDiceCount := Some (Fin (real M))\<rparr>) rpn =
       (if real M < countSum e then Inl (DiceParserDiceCount (Fin (real M))) else Inr (Some e))" .
  have main: "parse (this\<lparr>maximumDiceCount := Some (Fin (real M))\<rparr>) val =
           (if js_gt (diceTotal e) (Fin (real M)) then Inl (DiceParserDiceCount (Fin (real M)))
            else Inr (Some e))"
    using t c b' by (simp add: parse_def diceTotal_countSum [OF f] js_gt_def)
  have again: "parse (this\<lparr>maximumDiceCount := Some (Fin (real M))\<rparr>\<lparr>maximumDiceCount := None\<rparr>) val =
            Inr (Some e)"
    using assms(1) by simp
  from main again show ?thesis by (simp add: js_gt_def)
qed

theorem dice_count_limit_witness:
  "parse (\<lparr>maximumDiceCount = Some (Fin 5)\<rparr>\<lparr>maximumDiceCount := None\<rparr>) ''6d20'' =
     Inr (Some (CountedDiceRollExpression (Fin 6) (DiceRollExpression (Fin 20))))
   \<and> parse (\<lparr>maximumDiceCount = Some (Fin 5)\<rparr>\<lparr>maximumDiceCount := None\<rparr>) ''5d20'' =
     Inr (Some (CountedDiceRollExpression (Fin 5) (DiceRollExpression (Fin 20))))
   \<and> list_all isWhole (diceCounts (CountedDiceRollExpression (Fin 6) (DiceRollExpression (Fin 20))))
   \<and> list_all isWhole (diceCounts (CountedDiceRollExpression (Fin 5) (DiceRollExpression (Fin 20))))
   \<and> real 5 < 2 ^ 53
   \<and> diceTotal (CountedDiceRollExpression (Fin 6) (DiceRollExpression (Fin 20))) = Fin (real 5 + 1)
   \<and> diceTotal (CountedDiceRollExpression (Fin 5) (DiceRollExpression (Fin 20))) = Fin (real 5)
   \<and> parse (\<lparr>maximumDiceCount = Some (Fin 5)\<rparr>\<lparr>maximumDiceCount := Some (Fin (real 5))\<rparr>) ''6d20'' =
       Inl (DiceParserDiceCount (Fin (real 5)))
   \<and> parse (\<lparr>maximumDiceCount = Some (Fin 5)\<rparr>\<lparr>maximumDiceCount := Some (Fin (real 5))\<rparr>) ''5d20'' =
       Inr (Some (CountedDiceRollExpression (Fin 5) (DiceRollExpression (Fin 20))))"
proof -
  have h6: "parse (\<lparr>maximumDiceCount = Some (Fin 5)\<rparr>\<lparr>maximumDiceCount := None\<rparr>) ''6d20'' =
     Inr (Some (CountedDiceRollExpression (Fin 6) (DiceRollExpression (Fin 20))))"
    by code_simp
  have h5: "parse (\<lparr>maximumDiceCount = Some (Fin 5)\<rparr>\<lparr>maximumDiceCount := None\<rparr>) ''5d20'' =
     Inr (Some (CountedDiceRollExpression (Fin 5) (DiceRollExpression (Fin 20))))"
    by code_simp
  have w6: "list_all isWhole (diceCounts (CountedDiceRollExpression (Fin 6) (DiceRollExpression (Fin 20))))"
    by (simp add: isWhole_def)
  have w5: "list_all isWhole (diceCounts (CountedDiceRollExpression (Fin 5) (DiceRollExpression (Fin 20))))"
    by (simp add: isWhole_def)
  have m: "real 5 < 2 ^ 53" by simp
  have t6: "diceTotal (CountedDiceRollExpression (Fin 6) (DiceRollExpression (Fin 20))) = Fin (real 5 + 1)"
    by (simp add: diceTotal_def)
  have t5: "diceTotal (CountedDiceRollExpression (Fin 5) (DiceRollExpression (Fin 20))) = Fin (real 5)"
    by (simp add: diceTotal_def)
  from dice_count_limit [OF h6 w6 m] dice_count_limit [OF h5 w5 m] h6 h5 w6 w5 m t6 t5
  show ?thesis by blast
qed

section \<open>Numeric literals\<close>

lemma decimalValue_foldl:
  "foldl (\<lambda>a c. a * 10 + digitVal c) a ds = a * 10 ^ length ds + integerPart ds"
  by (induction ds arbitrary: a) (simp_all add: algebra_simps)

lemma decimalValue_integerPart: "decimalValue ds = integerPart ds"
  by (simp add: decimalValue_def decimalValue_foldl)

lemma integerPart_snoc: "integerPart (ds @ [c]) = integerPart ds * 10 + digitVal c"
  by (induction ds) (simp_all add: algebra_simps)

lemma fractionPart_integerPart:
  "fractionPart fp = real (integerPart fp) / 10 ^ length fp"
  by (induction fp) (simp_all add: field_simps)

lemma isDigit_facts:
  assumes "isDigit c"
  shows "isWord c" "\<not> isWhiteSpace c" "c \<noteq> CHR ''.''" "c \<noteq> CHR ''-''" "c \<noteq> CHR ''I''"
    "lowerChar c = c" "c \<noteq> CHR ''d''"
  using assms by (auto simp add: isDigit_def isWord_def isWhiteSpace_def lowerChar_def code_def)

lemma literal_chars:
  assumes "list_all isDigit ip" "list_all isDigit fp" "c \<in> set (literal neg ip fp)"
  shows "isDigit c \<or> c = CHR ''.'' \<or> c = CHR ''-''"
  using assms by (auto simp add: literal_def list_all_iff split: if_splits)

lemma no_space_trim:
  assumes "list_all (\<lambda>c. \<not> isWhiteSpace c) s"
  shows "collapseSpaces (trim s) = s"
proof -
  have d: "dropWhile isWhiteSpace t = t" if "list_all (\<lambda>c. \<not> isWhiteSpace c) t" for t
    using that by (cases t) auto
  have "list_all (\<lambda>c. \<not> isWhiteSpace c) (rev s)" using assms by (simp add: list_all_iff)
  then have "trim s = s" using d [OF assms] d [of "rev s"] by (simp add: trim_def)
  moreover have "collapseSpaces s = s" using assms by (induction s) auto
  ultimately show ?thesis by simp
qed

lemma literal_no_space:
  assumes "list_all isDigit ip" "list_all isDigit fp"
  shows "list_all (\<lambda>c. \<not> isWhiteSpace c) (literal neg ip fp)"
proof -
  have "\<not> isWhiteSpace CHR ''.''" "\<not> isWhiteSpace CHR ''-''"
    by (simp_all add: isWhiteSpace_def code_def)
  with assms isDigit_facts(2) literal_chars [OF assms] show ?thesis
    unfolding list_all_iff by blast
qed

lemma toLowerCase_literal:
  assumes "list_all isDigit ip" "list_all isDigit fp"
  shows "toLowerCase (literal neg ip fp) = literal neg ip fp"
proof -
  have "lowerChar CHR ''.'' = CHR ''.''" "lowerChar CHR ''-'' = CHR ''-''"
    by (simp_all add: lowerChar_def code_def)
  then have "lowerChar c = c" if "c \<in> set (literal neg ip fp)" for c
    using literal_chars [OF assms that] isDigit_facts(6) by auto
  then show ?thesis unfolding toLowerCase_def by (simp add: map_idI)
qed

lemma literal_no_d:
  assumes "list_all isDigit ip" "list_all isDigit fp"
  shows "CHR ''d'' \<notin> set (literal neg ip fp)"
  using literal_chars [OF assms, of "CHR ''d''" neg] isDigit_facts(7) by auto

lemma takeWhile_digits:
  assumes "list_all isDigit ds" and "rest = [] \<or> \<not> isDigit (hd rest)"
  shows "takeWhile isDigit (ds @ rest) = ds" "dropWhile isDigit (ds @ rest) = rest"
proof -
  have r: "takeWhile isDigit rest = []" "dropWhile isDigit rest = rest"
    using assms(2) by (cases rest; simp)+
  from assms(1) have "\<forall>c\<in>set ds. isDigit c" by (simp add: list_all_iff)
  then show "takeWhile isDigit (ds @ rest) = ds" "dropWhile isDigit (ds @ rest) = rest"
    using r by (simp_all add: takeWhile_append2 dropWhile_append2)
qed

lemma denoted_nonneg: "0 \<le> denoted False ip fp"
  by (simp add: denoted_def fractionPart_integerPart)

lemma literalNumber_not_NaN: "\<not> isNaN (literalNumber neg ip fp)"
  using toDouble_cases [of "denoted False ip fp"]
  by (cases neg) (auto simp add: literalNumber_def split: if_splits)

lemma literalNumber_eq: "js_eq (literalNumber neg ip fp) (toDouble (denoted neg ip fp))"
proof (cases neg)
  case False
  then show ?thesis using toDouble_cases [of "denoted False ip fp"]
    by (auto simp add: literalNumber_def js_eq_def)
next
  case True
  then have d: "denoted neg ip fp = - denoted False ip fp" by (simp add: denoted_def)
  from denoted_nonneg [of ip fp] overflowThreshold_pos True show ?thesis
    unfolding literalNumber_def d by (auto simp add: toDouble_def js_eq_def)
qed

lemma literalNumber_Fin:
  assumes "denoted False ip fp < overflowThreshold" and "\<not> (neg \<and> denoted False ip fp = 0)"
  shows "literalNumber neg ip fp = Fin (denoted neg ip fp)"
proof -
  have d: "denoted True ip fp = - denoted False ip fp" by (simp add: denoted_def)
  from assms denoted_nonneg [of ip fp] overflowThreshold_pos
  have "toDouble (denoted False ip fp) = Fin (denoted False ip fp)"
    by (simp add: toDouble_def)
  with assms(2) d show ?thesis by (cases neg) (auto simp add: literalNumber_def)
qed

lemma scanUnsigned_literal:
  assumes "ip \<noteq> []" "list_all isDigit ip" "list_all isDigit fp"
  shows "scanUnsigned (literal False ip fp) = Some (toDouble (denoted False ip fp), [])"
proof -
  have nd: "\<not> isDigit CHR ''.''" by (simp add: isDigit_def code_def)
  have "hd ip \<noteq> CHR ''I''"
    using assms(1,2) isDigit_facts(5) [of "hd ip"] by (cases ip) auto
  then have inf: "take 8 (ip @ rest) \<noteq> ''Infinity''" for rest
    using assms(1) by (cases ip) auto
  have fp: "takeWhile isDigit fp = fp" "dropWhile isDigit fp = []"
    using takeWhile_digits [OF assms(3), of "[]"] by simp_all
  show ?thesis
  proof (cases "fp = []")
    case True
    have tw: "takeWhile isDigit ip = ip" "dropWhile isDigit ip = []"
      using takeWhile_digits [OF assms(2), of "[]"] by simp_all
    have "scanUnsigned ip = Some (toDouble (real (integerPart ip)), [])"
      using inf [of "[]"] assms(1)
      by (simp add: scanUnsigned_def Let_def scanExponent_def decimalValue_integerPart tw)
    with True show ?thesis by (simp add: literal_def denoted_def)
  next
    case False
    have tw: "takeWhile isDigit (ip @ CHR ''.'' # fp) = ip"
      "dropWhile isDigit (ip @ CHR ''.'' # fp) = CHR ''.'' # fp"
      using takeWhile_digits [OF assms(2), of "CHR ''.'' # fp"] nd by simp_all
    have "scanUnsigned (ip @ CHR ''.'' # fp) =
        Some (toDouble (real (integerPart ip) + fractionPart fp), [])"
      using inf [of "CHR ''.'' # fp"] assms(1)
      by (simp add: scanUnsigned_def Let_def scanExponent_def decimalValue_integerPart
          fractionPart_integerPart tw fp)
    with False show ?thesis by (simp add: literal_def denoted_def)
  qed
qed

lemma scanDecimal_literal:
  assumes "ip \<noteq> []" "list_all isDigit ip" "list_all isDigit fp"
  shows "scanDecimal (literal neg ip fp) = Some (literalNumber neg ip fp, [])"
proof (cases neg)
  case True
  have "literal True ip fp = CHR ''-'' # literal False ip fp" by (simp add: literal_def)
  then show ?thesis
    using True scanUnsigned_literal [OF assms] by (simp add: scanDecimal_def literalNumber_def)
next
  case False
  have "hd (literal False ip fp) = hd ip" using assms(1) by (simp add: literal_def)
  moreover have "isDigit (hd ip)" using assms(1,2) by (cases ip) auto
  ultimately have "hd (literal False ip fp) \<noteq> CHR ''+''" "hd (literal False ip fp) \<noteq> CHR ''-''"
    by (auto simp add: isDigit_def code_def)
  then show ?thesis
    using False scanUnsigned_literal [OF assms] by (simp add: scanDecimal_def literalNumber_def)
qed

lemma literal_numeric:
  assumes "ip \<noteq> []" "list_all isDigit ip" "list_all isDigit fp"
  shows "parseFloat (literal neg ip fp) = literalNumber neg ip fp"
    and "isNumeric (literal neg ip fp)"
proof -
  have ns: "list_all (\<lambda>c. \<not> isWhiteSpace c) (literal neg ip fp)"
    using literal_no_space [OF assms(2,3)] .
  have ne: "literal neg ip fp \<noteq> []" using assms(1) by (simp add: literal_def)
  have "dropWhile isWhiteSpace (literal neg ip fp) = literal neg ip fp"
    using ns ne by (cases "literal neg ip fp") auto
  then have ts: "trimStart (literal neg ip fp) = literal neg ip fp" by (simp add: trimStart_def)
  have tr2: "trim (literal neg ip fp) = literal neg ip fp"
  proof -
    have d: "dropWhile isWhiteSpace t = t" if "list_all (\<lambda>c. \<not> isWhiteSpace c) t" for t
      using that by (cases t) auto
    have "list_all (\<lambda>c. \<not> isWhiteSpace c) (rev (literal neg ip fp))"
      using ns by (simp add: list_all_iff)
    then show ?thesis using d [OF ns] d [of "rev (literal neg ip fp)"] by (simp add: trim_def)
  qed
  show pf: "parseFloat (literal neg ip fp) = literalNumber neg ip fp"
    by (simp add: parseFloat_def ts scanDecimal_literal [OF assms])
  have "toNumber (literal neg ip fp) = literalNumber neg ip fp"
    using ne by (simp add: toNumber_def tr2 scanDecimal_literal [OF assms])
  with pf show "isNumeric (literal neg ip fp)"
    by (simp add: isNumeric_def literalNumber_not_NaN)
qed

lemma literal_primitive:
  assumes "ip \<noteq> []" "list_all isDigit ip" "list_all isDigit fp"
  shows "expressionForPrimitive (literal neg ip fp) =
     Inr (NumericalExpression (literalNumber neg ip fp))"
  using literal_numeric [OF assms, of neg] literal_no_d [OF assms(2,3), of neg]
  by (simp add: expressionForPrimitive_def toLowerCase_literal [OF assms(2,3)])


lemma tokenizeLoop_digits:
  assumes "list_all isDigit ds"
  shows "\<exists>p. tokenizeLoop prevC (ds @ rest) tokens current added =
              tokenizeLoop p rest tokens (current @ ds) added"
  using assms
proof (induction ds arbitrary: prevC current)
  case Nil
  then show ?case by auto
next
  case (Cons c ds)
  then have "isCharPrimitive [c]" by (simp add: isCharPrimitive_def isDigit_facts(1))
  then have "tokenizeLoop prevC ((c # ds) @ rest) tokens current added =
      tokenizeLoop [c] (ds @ rest) tokens (current @ [c]) added"
    by (simp add: Let_def)
  moreover from Cons obtain p where
    "tokenizeLoop [c] (ds @ rest) tokens (current @ [c]) added =
       tokenizeLoop p rest tokens ((current @ [c]) @ ds) added"
    by fastforce
  ultimately show ?case by auto
qed

lemma tokenizeLoop_fraction:
  assumes "list_all isDigit fp" and "current \<noteq> []"
  shows "tokenizeLoop prevC (if fp = [] then [] else CHR ''.'' # fp) [] current False =
     Inr ([], current @ (if fp = [] then [] else CHR ''.'' # fp))"
proof (cases "fp = []")
  case True
  then show ?thesis by simp
next
  case False
  have "\<not> isCharPrimitive ''.''" by (simp add: isCharPrimitive_def isWord_def isDigit_def code_def)
  then have "tokenizeLoop prevC (CHR ''.'' # fp) [] current False =
      tokenizeLoop ''.'' fp [] (current @ ''.'') True"
    by (simp add: Let_def)
  moreover from tokenizeLoop_digits [OF assms(1), of "''.''" "[]" "[]" "current @ ''.''" True]
  have "tokenizeLoop ''.'' fp [] (current @ ''.'') True = Inr ([], (current @ ''.'') @ fp)"
    by auto
  ultimately show ?thesis using False by simp
qed

lemma tokenize_literal:
  assumes "ip \<noteq> []" "list_all isDigit ip" "list_all isDigit fp"
  shows "tokenize (literal neg ip fp) = Inr [literal neg ip fp]"
proof -
  let ?frac = "if fp = [] then [] else CHR ''.'' # fp"
  have loop: "tokenizeLoop prevC (ip @ ?frac) [] current False = Inr ([], current @ ip @ ?frac)"
    for prevC current
  proof -
    from tokenizeLoop_digits [OF assms(2), of prevC ?frac "[]" current False] obtain p where
      "tokenizeLoop prevC (ip @ ?frac) [] current False = tokenizeLoop p ?frac [] (current @ ip) False"
      by blast
    with tokenizeLoop_fraction [OF assms(3), of "current @ ip" p] assms(1) show ?thesis by simp
  qed
  have "tokenizeLoop [] (literal neg ip fp) [] [] False = Inr ([], literal neg ip fp)"
  proof (cases neg)
    case False
    with loop [of "[]" "[]"] show ?thesis by (simp add: literal_def)
  next
    case True
    have "isDigit (hd ip)" using assms(1,2) by (cases ip) auto
    then have d: "list_ex isDigit (take 1 (ip @ ?frac))" using assms(1) by (cases ip) auto
    have "\<not> isCharPrimitive ''-''" by (simp add: isCharPrimitive_def isWord_def isDigit_def code_def)
    then have "tokenizeLoop [] (CHR ''-'' # ip @ ?frac) [] [] False =
        tokenizeLoop ''-'' (ip @ ?frac) [] ''-'' False"
      using d by (simp add: Let_def top_def del: take_Suc_Cons)
    with loop [of "''-''" "''-''"] True show ?thesis by (simp add: literal_def)
  qed
  moreover have "literal neg ip fp \<noteq> []" using assms(1) by (simp add: literal_def)
  ultimately show ?thesis
    by (simp add: tokenize_def no_space_trim [OF literal_no_space [OF assms(2,3)]])
qed


lemma rpnStep_numerical:
  assumes "expressionForPrimitive token = Inr (NumericalExpression v)"
  shows "rpnStep maxCount (stack, diceCount) token = Inr (NumericalExpression v # stack, diceCount)"
  using assms primitive_not_special [OF assms]
  by (cases maxCount) (simp_all add: rpnStep_def isSpecialToken_def)

text \<open>
  C8. For every numeric literal \<open>N\<close> (digits, an optional fraction, an optional leading
  minus sign), whatever the configuration of the parser, \<^verbatim>\<open>parse(N)\<close> is the numerical
  expression of the number that \<open>N\<close> denotes, and every roll of it returns that number
  with no record. The number is equal (\<^verbatim>\<open>==\<close>) to the decimal that \<open>N\<close> writes, taken as a
  double; it is that decimal itself when the decimal is within the range of the doubles,
  the literal of a zero with a minus sign excepted, which denotes the negative zero.
\<close>

theorem numeric_literal:
  assumes "ip \<noteq> []" and "list_all isDigit ip" and "list_all isDigit fp"
  shows "parse this (literal neg ip fp) =
           Inr (Some (NumericalExpression (literalNumber neg ip fp)))
       \<and> roll (NumericalExpression (literalNumber neg ip fp)) rnd n =
           Some (\<lparr>value_r = literalNumber neg ip fp, diceRolled = []\<rparr>, n)
       \<and> js_eq (literalNumber neg ip fp) (toDouble (denoted neg ip fp))
       \<and> (denoted False ip fp < overflowThreshold \<and> \<not> (neg \<and> denoted False ip fp = 0) \<longrightarrow>
            literalNumber neg ip fp = Fin (denoted neg ip fp))"
proof -
  let ?N = "literal neg ip fp"
  let ?e = "NumericalExpression (literalNumber neg ip fp)"
  have p: "expressionForPrimitive ?N = Inr ?e" using literal_primitive [OF assms] .
  have ns: "\<not> isSpecialToken ?N" using primitive_not_special [OF p] .
  have t: "tokenize ?N = Inr [?N]" using tokenize_literal [OF assms] .
  have c: "shuntingYardConversion [?N] = Inr [?N]"
    by (simp add: shuntingYardConversion_def step_primitive [OF ns])
  have b: "expressionForReversePolishNotation this [?N] = Inr (Some ?e)"
    by (simp add: expressionForReversePolishNotation_def rpnStep_numerical [OF p])
  from t c b have "parse this ?N = Inr (Some ?e)" by (simp add: parse_def)
  moreover have "roll ?e rnd n = Some (\<lparr>value_r = literalNumber neg ip fp, diceRolled = []\<rparr>, n)"
    by (simp add: AccumulatedResult_def)
  moreover note literalNumber_eq [of neg ip fp]
  moreover have "denoted False ip fp < overflowThreshold \<and> \<not> (neg \<and> denoted False ip fp = 0) \<longrightarrow>
            literalNumber neg ip fp = Fin (denoted neg ip fp)"
    using literalNumber_Fin [of ip fp neg] by blast
  ultimately show ?thesis by blast
qed

theorem numeric_literal_witness:
  "''42'' \<noteq> [] \<and> list_all isDigit ''42'' \<and> list_all isDigit ''5''
   \<and> literal True ''42'' ''5'' = ''-42.5'' \<and> denoted True ''42'' ''5'' = - (85 / 2)
   \<and> denoted False ''42'' ''5'' < overflowThreshold
   \<and> \<not> (True \<and> denoted False ''42'' ''5'' = 0)
   \<and> literalNumber True ''42'' ''5'' = Fin (- (85 / 2))
   \<and> parse \<lparr>maximumDiceCount = None\<rparr> ''-42.5'' = Inr (Some (NumericalExpression (Fin (- (85 / 2)))))
   \<and> roll (NumericalExpression (Fin (- (85 / 2)))) (\<lambda>j. 1 / 2) 0 =
        Some (\<lparr>value_r = Fin (- (85 / 2)), diceRolled = []\<rparr>, 0)
   \<and> js_eq (Fin (- (85 / 2))) (toDouble (- (85 / 2)))"
proof -
  have h: "''42'' \<noteq> []" "list_all isDigit ''42''" "list_all isDigit ''5''"
    by (simp_all add: isDigit_def code_def)
  have l: "literal True ''42'' ''5'' = ''-42.5''" by (simp add: literal_def)
  have d: "denoted True ''42'' ''5'' = - (85 / 2)"
    by (simp add: denoted_def digitVal_def code_def)
  have d': "denoted False ''42'' ''5'' = 85 / 2"
    by (simp add: denoted_def digitVal_def code_def)
  have r: "denoted False ''42'' ''5'' < overflowThreshold"
    unfolding d' overflowThreshold_numeral by simp
  have z: "\<not> (True \<and> denoted False ''42'' ''5'' = 0)" unfolding d' by simp
  from numeric_literal [OF h, of "\<lparr>maximumDiceCount = None\<rparr>" True "\<lambda>j. 1 / 2" 0] r z
  have "literalNumber True ''42'' ''5'' = Fin (- (85 / 2))" unfolding d by blast
  with numeric_literal [OF h, of "\<lparr>maximumDiceCount = None\<rparr>" True "\<lambda>j. 1 / 2" 0] h l d r z
  show ?thesis unfolding l by auto
qed

end
